(* ===== verification/Prelude.thy ===== *)
theory Prelude
  imports Main "HOL-Library.Word"
begin

unbundle bit_operations_syntax

text \<open>
  Shared vocabulary of the development: the C integer types as machine words, the
  little-endian byte layout of integers in memory, byte swapping, the most-significant-first
  bit view that the kernel's longest-prefix-match tries use, and the interface of a
  fixed-width struct codec with the array round trip every section parser relies on.
\<close>

named_theorems size_simps \<open>lengths of encoded structs and sections\<close>
named_theorems codec_simps \<open>decode-after-encode equations\<close>

type_synonym u8 = "8 word"
type_synonym u32 = "32 word"
type_synonym u64 = "64 word"

subsection \<open>C integer conversions\<close>

text \<open>The value an \<open>int\<close> variable holds after a wider unsigned value is assigned to it.\<close>

definition c_int :: "nat \<Rightarrow> int" where
  "c_int n = sint (of_nat n :: u32)"

lemma c_int_small: "n < 2 ^ 31 \<Longrightarrow> c_int n = int n"
  unfolding c_int_def by (simp add: signed_of_nat signed_take_bit_int_eq_self)

subsection \<open>Little-endian bytes\<close>

fun le_encode :: "nat \<Rightarrow> nat \<Rightarrow> u8 list" where
  "le_encode 0 n = []"
| "le_encode (Suc k) n = of_nat (n mod 256) # le_encode k (n div 256)"

fun le_decode :: "u8 list \<Rightarrow> nat" where
  "le_decode [] = 0"
| "le_decode (b # bs) = unat b + 256 * le_decode bs"

lemma length_le_encode [simp, size_simps]: "length (le_encode k n) = k"
  by (induction k arbitrary: n) auto

lemma le_encode_numeral:
  "le_encode (numeral k) n = of_nat (n mod 256) # le_encode (pred_numeral k) (n div 256)"
  by (simp only: numeral_eq_Suc [of k] le_encode.simps)

lemma unat_of_byte: "unat (of_nat (n mod 256) :: u8) = n mod 256"
  by (simp add: unat_of_nat take_bit_eq_mod)

lemma le_decode_encode: "le_decode (le_encode k n) = n mod 256 ^ k"
proof (induction k arbitrary: n)
  case 0
  show ?case by simp
next
  case (Suc k)
  have "n mod 256 + 256 * (n div 256 mod 256 ^ k) = n mod (256 * 256 ^ k)"
    by (simp add: mod_mult2_eq)
  then show ?case by (simp add: Suc.IH unat_of_byte)
qed

lemma le_encode_decode: "le_encode (length bs) (le_decode bs) = bs"
proof (induction bs)
  case Nil
  show ?case by simp
next
  case (Cons b bs)
  have b: "unat b < 256" using unsigned_less [of b, where 'a = nat] by simp
  have "(unat b + 256 * le_decode bs) mod 256 = unat b"
    using b by simp
  moreover have "(unat b + 256 * le_decode bs) div 256 = le_decode bs"
    using b by simp
  ultimately show ?case by (simp add: Cons.IH)
qed

lemma le_decode_bound: "le_decode bs < 256 ^ length bs"
proof -
  have "le_decode bs mod 256 ^ length bs < 256 ^ length bs" by simp
  then show ?thesis by (metis le_decode_encode le_encode_decode)
qed

lemma le_encode_inject:
  assumes "le_encode k m = le_encode k n" "m < 256 ^ k" "n < 256 ^ k"
  shows "m = n"
  using assms by (metis le_decode_encode mod_less)

definition le32 :: "u32 \<Rightarrow> u8 list" where
  "le32 w = le_encode 4 (unat w)"

definition le64 :: "u64 \<Rightarrow> u8 list" where
  "le64 w = le_encode 8 (unat w)"

definition un_le32 :: "u8 list \<Rightarrow> u32" where
  "un_le32 bs = of_nat (le_decode (take 4 bs))"

definition un_le64 :: "u8 list \<Rightarrow> u64" where
  "un_le64 bs = of_nat (le_decode (take 8 bs))"

lemma length_le32 [simp, size_simps]: "length (le32 w) = 4"
  by (simp add: le32_def)

lemma length_le64 [simp, size_simps]: "length (le64 w) = 8"
  by (simp add: le64_def)

lemma un_le32_le32 [simp, codec_simps]: "un_le32 (le32 w @ bs) = w"
  using unsigned_less [of w, where 'a = nat] by (simp add: un_le32_def le32_def le_decode_encode)

lemma un_le64_le64 [simp, codec_simps]: "un_le64 (le64 w @ bs) = w"
  using unsigned_less [of w, where 'a = nat] by (simp add: un_le64_def le64_def le_decode_encode)

subsection \<open>Byte swap (\<open>__builtin_bswap64\<close>)\<close>

definition bswap64 :: "u64 \<Rightarrow> u64" where
  "bswap64 w = of_nat (le_decode (rev (le64 w)))"

lemma le64_bswap64: "le64 (bswap64 w) = rev (le64 w)"
proof -
  let ?bs = "rev (le64 w)"
  have len: "length ?bs = 8" by simp
  have "le_decode ?bs < 2 ^ 64" using le_decode_bound [of ?bs] len by simp
  then have "unat (bswap64 w) = le_decode ?bs"
    unfolding bswap64_def by (simp add: unat_of_nat take_bit_eq_mod)
  then show ?thesis using le_encode_decode [of ?bs] len by (simp add: le64_def)
qed

lemma le64_inject [simp]: "le64 a = le64 b \<longleftrightarrow> a = b"
  by (metis append_Nil2 un_le64_le64)

lemma bswap64_involutive [simp]: "bswap64 (bswap64 w) = w"
  by (rule le64_inject [THEN iffD1]) (simp add: le64_bswap64)

subsection \<open>Most-significant-first bits\<close>

fun nat_bits :: "nat \<Rightarrow> nat \<Rightarrow> bool list" where
  "nat_bits 0 n = []"
| "nat_bits (Suc k) n = nat_bits k (n div 2) @ [odd n]"

definition byte_bits :: "u8 list \<Rightarrow> bool list" where
  "byte_bits bs = concat (map (\<lambda>b. nat_bits 8 (unat b)) bs)"

lemma length_nat_bits [simp]: "length (nat_bits k n) = k"
  by (induction k arbitrary: n) auto

lemma nat_bits_add: "nat_bits (j + k) n = nat_bits j (n div 2 ^ k) @ nat_bits k n"
proof (induction k arbitrary: n)
  case 0
  show ?case by simp
next
  case (Suc k)
  have "nat_bits (j + Suc k) n = nat_bits (j + k) (n div 2) @ [odd n]" by simp
  also have "\<dots> = nat_bits j (n div 2 div 2 ^ k) @ nat_bits k (n div 2) @ [odd n]"
    by (simp add: Suc.IH)
  also have "n div 2 div 2 ^ k = n div 2 ^ Suc k" by (simp add: div_mult2_eq)
  finally show ?case by simp
qed

lemma double_plus_parity:
  "2 * a + m mod 2 = 2 * b + n mod 2 \<longleftrightarrow> a = b \<and> (odd m \<longleftrightarrow> odd n)" for a b m n :: nat
  by presburger

lemma nat_bits_eq_iff: "nat_bits k m = nat_bits k n \<longleftrightarrow> m mod 2 ^ k = n mod 2 ^ k"
proof (induction k arbitrary: m n)
  case 0
  show ?case by simp
next
  case (Suc k)
  have halves: "x mod 2 ^ Suc k = 2 * (x div 2 mod 2 ^ k) + x mod 2" for x :: nat
    by (metis mod_mult2_eq add.commute power_Suc)
  have "nat_bits (Suc k) m = nat_bits (Suc k) n \<longleftrightarrow>
      nat_bits k (m div 2) = nat_bits k (n div 2) \<and> (odd m \<longleftrightarrow> odd n)"
    by simp
  then show ?case by (simp only: halves double_plus_parity Suc.IH)
qed

lemma nat_bits_mod: "nat_bits k (n mod 2 ^ k) = nat_bits k n"
  by (simp add: nat_bits_eq_iff)

text \<open>
  The bytes of a big-endian number, read bit by bit from the first byte's top bit, are the
  number's bits from the most significant one down.
\<close>

lemma length_byte_bits [simp, size_simps]: "length (byte_bits bs) = 8 * length bs"
  by (induction bs) (simp_all add: byte_bits_def del: nat_bits.simps)

lemma byte_bits_snoc: "byte_bits (bs @ [b]) = byte_bits bs @ nat_bits 8 (unat b)"
  by (simp add: byte_bits_def)

lemma byte_bits_be: "byte_bits (rev (le_encode k n)) = nat_bits (8 * k) n"
proof (induction k arbitrary: n)
  case 0
  show ?case by (simp add: byte_bits_def)
next
  case (Suc k)
  have "nat_bits 8 (n mod 256) = nat_bits 8 n"
    using nat_bits_mod [of 8 n] by simp
  then have "byte_bits (rev (le_encode (Suc k) n)) = nat_bits (8 * k) (n div 256) @ nat_bits 8 n"
    by (simp add: byte_bits_snoc Suc.IH unat_of_byte del: nat_bits.simps)
  also have "\<dots> = nat_bits (8 * k + 8) n"
    using nat_bits_add [of "8 * k" 8 n] by simp
  finally show ?case by (simp add: algebra_simps)
qed

text \<open>
  Two addresses stored byte-swapped agree on their first \<open>p\<close> key bits exactly when they lie
  in the same aligned block of \<open>2 ^ (64 - p)\<close> bytes.
\<close>

lemma take_key_bits_eq_iff:
  assumes "p \<le> 64"
  shows "take p (byte_bits (le64 (bswap64 a))) = take p (byte_bits (le64 (bswap64 b))) \<longleftrightarrow>
    unat a div 2 ^ (64 - p) = unat b div 2 ^ (64 - p)"
proof -
  have bits: "take p (byte_bits (le64 (bswap64 w))) = nat_bits p (unat w div 2 ^ (64 - p))" for w
    using nat_bits_add [of p "64 - p" "unat w"] assms byte_bits_be [of 8 "unat w"]
    unfolding le64_bswap64 by (simp add: le64_def)
  have small: "unat w div 2 ^ (64 - p) < 2 ^ p" for w :: u64
    using unsigned_less [of w, where 'a = nat] assms
    by (simp add: less_mult_imp_div_less flip: power_add)
  show ?thesis unfolding bits nat_bits_eq_iff using small by simp
qed

subsection \<open>Loops that can fault\<close>

text \<open>A loop over a list whose body may fault.\<close>

fun fold_option :: "('a \<Rightarrow> 's \<Rightarrow> 's option) \<Rightarrow> 'a list \<Rightarrow> 's \<Rightarrow> 's option" where
  "fold_option f [] s = Some s"
| "fold_option f (x # xs) s = (case f x s of None \<Rightarrow> None | Some s' \<Rightarrow> fold_option f xs s')"

lemma fold_option_inv:
  "(\<And>x s. x \<in> set xs \<Longrightarrow> P s \<Longrightarrow> \<exists>s'. f x s = Some s' \<and> P s') \<Longrightarrow> P s \<Longrightarrow>
     \<exists>s'. fold_option f xs s = Some s' \<and> P s'"
proof (induction xs arbitrary: s)
  case (Cons x xs)
  obtain s1 where "f x s = Some s1" "P s1" using Cons.prems(1) [of x s] Cons.prems(2) by auto
  then show ?case using Cons.IH [of s1] Cons.prems(1) by simp
qed simp

subsection \<open>Fixed-width struct codecs\<close>

text \<open>
  A packed struct of \<open>width\<close> bytes: \<open>enc\<close> is its memory image, \<open>dec\<close> reads it off the front
  of a buffer, as a cast of the buffer pointer does. An array of \<open>n\<close> structs is read by \<open>n\<close>
  casts at multiples of the width.
\<close>

fun dec_array :: "nat \<Rightarrow> (u8 list \<Rightarrow> 'a) \<Rightarrow> nat \<Rightarrow> u8 list \<Rightarrow> 'a list" where
  "dec_array w dec 0 bs = []"
| "dec_array w dec (Suc n) bs = dec bs # dec_array w dec n (drop w bs)"

lemma length_dec_array [simp, size_simps]: "length (dec_array w dec n bs) = n"
  by (induction n arbitrary: bs) auto

lemma dec_array_nth: "i < n \<Longrightarrow> dec_array w dec n bs ! i = dec (drop (i * w) bs)"
proof (induction n arbitrary: bs i)
  case 0
  then show ?case by simp
next
  case (Suc n)
  then show ?case by (cases i) (simp_all add: add.commute)
qed

locale struct_codec =
  fixes enc :: "'a \<Rightarrow> u8 list"
    and dec :: "u8 list \<Rightarrow> 'a"
    and width :: nat
  assumes length_enc: "length (enc x) = width"
    and dec_enc: "dec (enc x @ bs) = x"
begin

lemma enc_inject: "enc x = enc y \<longleftrightarrow> x = y"
  by (metis append_Nil2 dec_enc)

lemma length_enc_array: "length (concat (map enc xs)) = width * length xs"
  by (induction xs) (simp_all add: length_enc)

lemma dec_array_enc_array: "dec_array width dec (length xs) (concat (map enc xs) @ bs) = xs"
proof (induction xs)
  case Nil
  show ?case by simp
next
  case (Cons x xs)
  have "drop width (enc x @ concat (map enc xs) @ bs) = concat (map enc xs) @ bs"
    using length_enc [of x] by simp
  then show ?case using Cons.IH by (simp add: dec_enc)
qed

end

end
