(* ===== verification/Shared.thy ===== *)
theory Shared
  imports Prelude
begin

text \<open>
  \<open>src/common/sentinel_shared.h\<close>: the constants and struct layouts exchanged by the compiler
  pass, the loader and the kernel-side enforcer. Every struct is a record with its memory image
  (little-endian, packed where the header says so) and an interpretation of
  \<^const>\<open>struct_codec\<close>, which gives its size and that reading back its image returns it.
\<close>

subsection \<open>Constants\<close>

definition SENTINEL_VERSION :: string where "SENTINEL_VERSION = ''4.5.0''"

definition MODULE_MAIN :: u32 where "MODULE_MAIN = 1"
definition MODULE_LIBC :: u32 where "MODULE_LIBC = 2"
definition MODULE_DYNAMIC_BASE :: u32 where "MODULE_DYNAMIC_BASE = 3"

definition ENFORCE_KILL :: u32 where "ENFORCE_KILL = 0"
definition ENFORCE_PERMISSIVE :: u32 where "ENFORCE_PERMISSIVE = 1"
definition ENFORCE_TERM :: u32 where "ENFORCE_TERM = 2"

definition EVENT_ALLOW :: u8 where "EVENT_ALLOW = 0"
definition EVENT_BLOCK :: u8 where "EVENT_BLOCK = 1"
definition EVENT_CFI_OK :: u8 where "EVENT_CFI_OK = 2"
definition EVENT_CFI_FAIL :: u8 where "EVENT_CFI_FAIL = 3"
definition EVENT_NR_MISMATCH :: u8 where "EVENT_NR_MISMATCH = 4"
definition EVENT_FORK_TRACK :: u8 where "EVENT_FORK_TRACK = 5"

definition POLICY_FLAG_CHECK_NR :: u64 where "POLICY_FLAG_CHECK_NR = push_bit 32 1"

definition SENTINEL_POLICY_MAGIC :: u32 where "SENTINEL_POLICY_MAGIC = 0x4E45537F"
definition SENTINEL_POLICY_VERSION :: u8 where "SENTINEL_POLICY_VERSION = 1"

lemmas module_defs = MODULE_MAIN_def MODULE_LIBC_def MODULE_DYNAMIC_BASE_def
lemmas enforce_defs = ENFORCE_KILL_def ENFORCE_PERMISSIVE_def ENFORCE_TERM_def
lemmas event_defs = EVENT_ALLOW_def EVENT_BLOCK_def EVENT_CFI_OK_def EVENT_CFI_FAIL_def
  EVENT_NR_MISMATCH_def EVENT_FORK_TRACK_def

subsection \<open>Section header and entries\<close>

record sentinel_header =
  hdr_magic :: "u8 \<times> u8 \<times> u8 \<times> u8"
  hdr_version :: u8
  hdr_count :: u32

record policy_entry =
  site_addr :: u64
  func_addr :: u64
  syscall_nr :: u64

fun magic_bytes :: "u8 \<times> u8 \<times> u8 \<times> u8 \<Rightarrow> u8 list" where
  "magic_bytes (a, b, c, d) = [a, b, c, d]"

fun un_magic :: "u8 list \<Rightarrow> u8 \<times> u8 \<times> u8 \<times> u8" where
  "un_magic (a # b # c # d # _) = (a, b, c, d)"
| "un_magic _ = (0, 0, 0, 0)"

definition sentinel_header_bytes :: "sentinel_header \<Rightarrow> u8 list" where
  "sentinel_header_bytes h = magic_bytes (hdr_magic h) @ [hdr_version h] @ le32 (hdr_count h)"

definition read_sentinel_header :: "u8 list \<Rightarrow> sentinel_header" where
  "read_sentinel_header bs =
     \<lparr>hdr_magic = un_magic bs, hdr_version = hd (drop 4 bs), hdr_count = un_le32 (drop 5 bs)\<rparr>"

definition policy_entry_bytes :: "policy_entry \<Rightarrow> u8 list" where
  "policy_entry_bytes p = le64 (site_addr p) @ le64 (func_addr p) @ le64 (syscall_nr p)"

definition read_policy_entry :: "u8 list \<Rightarrow> policy_entry" where
  "read_policy_entry bs =
     \<lparr>site_addr = un_le64 bs, func_addr = un_le64 (drop 8 bs), syscall_nr = un_le64 (drop 16 bs)\<rparr>"

interpretation header_codec: struct_codec sentinel_header_bytes read_sentinel_header 9
proof
  fix h :: sentinel_header and bs
  obtain a b c d where m: "hdr_magic h = (a, b, c, d)" by (cases "hdr_magic h")
  show "length (sentinel_header_bytes h) = 9"
    by (simp add: sentinel_header_bytes_def m)
  show "read_sentinel_header (sentinel_header_bytes h @ bs) = h"
    by (cases h) (use m in \<open>simp add: sentinel_header_bytes_def read_sentinel_header_def\<close>)
qed

interpretation entry_codec: struct_codec policy_entry_bytes read_policy_entry 24
  by standard (simp_all add: policy_entry_bytes_def read_policy_entry_def)

lemmas [size_simps] = header_codec.length_enc entry_codec.length_enc entry_codec.length_enc_array

lemmas [codec_simps] = header_codec.dec_enc entry_codec.dec_enc entry_codec.dec_array_enc_array

subsection \<open>Audit event\<close>

record audit_event =
  timestamp_ns :: u64
  ev_tgid :: u32
  ev_tid :: u32
  syscall_rip :: u64
  ev_offset :: u64
  ev_module_id :: u32
  ev_syscall_nr :: u32
  ev_action :: u8

text \<open>
  The struct has natural alignment: eight-byte members at multiples of eight and seven bytes of
  padding at the end, which no writer initialises; \<open>pad\<close> is what they happen to hold.
\<close>

definition audit_event_bytes :: "u8 list \<Rightarrow> audit_event \<Rightarrow> u8 list" where
  "audit_event_bytes pad e =
     le64 (timestamp_ns e) @ le32 (ev_tgid e) @ le32 (ev_tid e) @ le64 (syscall_rip e) @
     le64 (ev_offset e) @ le32 (ev_module_id e) @ le32 (ev_syscall_nr e) @ [ev_action e] @ pad"

definition read_audit_event :: "u8 list \<Rightarrow> audit_event" where
  "read_audit_event bs =
     \<lparr>timestamp_ns = un_le64 bs, ev_tgid = un_le32 (drop 8 bs), ev_tid = un_le32 (drop 12 bs),
      syscall_rip = un_le64 (drop 16 bs), ev_offset = un_le64 (drop 24 bs),
      ev_module_id = un_le32 (drop 32 bs), ev_syscall_nr = un_le32 (drop 36 bs),
      ev_action = hd (drop 40 bs)\<rparr>"

interpretation event_codec: struct_codec "audit_event_bytes (replicate 7 0)" read_audit_event 48
  by standard (simp_all add: audit_event_bytes_def read_audit_event_def)

subsection \<open>Map keys and values\<close>

record vma_key =
  prefixlen :: u32
  key_addr :: u64

record vma_value =
  module_id :: u32
  base_addr :: u64

record cfi_range =
  cfi_start :: u64
  cfi_end :: u64

definition vma_key_bytes :: "vma_key \<Rightarrow> u8 list" where
  "vma_key_bytes k = le32 (prefixlen k) @ le64 (key_addr k)"

definition read_vma_key :: "u8 list \<Rightarrow> vma_key" where
  "read_vma_key bs = \<lparr>prefixlen = un_le32 bs, key_addr = un_le64 (drop 4 bs)\<rparr>"

definition vma_value_bytes :: "vma_value \<Rightarrow> u8 list" where
  "vma_value_bytes v = le32 (module_id v) @ le64 (base_addr v)"

definition read_vma_value :: "u8 list \<Rightarrow> vma_value" where
  "read_vma_value bs = \<lparr>module_id = un_le32 bs, base_addr = un_le64 (drop 4 bs)\<rparr>"

definition cfi_range_bytes :: "cfi_range \<Rightarrow> u8 list" where
  "cfi_range_bytes r = le64 (cfi_start r) @ le64 (cfi_end r)"

definition read_cfi_range :: "u8 list \<Rightarrow> cfi_range" where
  "read_cfi_range bs = \<lparr>cfi_start = un_le64 bs, cfi_end = un_le64 (drop 8 bs)\<rparr>"

interpretation vma_key_codec: struct_codec vma_key_bytes read_vma_key 12
  by standard (simp_all add: vma_key_bytes_def read_vma_key_def)

interpretation vma_value_codec: struct_codec vma_value_bytes read_vma_value 12
  by standard (simp_all add: vma_value_bytes_def read_vma_value_def)

interpretation cfi_range_codec: struct_codec cfi_range_bytes read_cfi_range 16
  by standard (simp_all add: cfi_range_bytes_def read_cfi_range_def)

lemma magic_constant_bytes: "le32 SENTINEL_POLICY_MAGIC = [0x7F, 0x53, 0x45, 0x4E]"
  by (simp add: le32_def SENTINEL_POLICY_MAGIC_def le_encode_numeral)

end
