(* ===== verification/CStr.thy ===== *)
theory CStr
  imports Prelude
begin

text \<open>
  The C string functions the sources call, on character lists: a C string is the list of its bytes
  before the terminating NUL, a null pointer is \<open>None\<close>, a pointer into a string is the suffix it
  points at.
\<close>

subsection \<open>Searching\<close>

fun starts_with :: "string \<Rightarrow> string \<Rightarrow> bool" where
  "starts_with [] s = True"
| "starts_with (p # ps) [] = False"
| "starts_with (p # ps) (c # cs) = (p = c \<and> starts_with ps cs)"

fun strstr :: "string \<Rightarrow> string \<Rightarrow> string option" where
  "strstr [] needle = (if needle = [] then Some [] else None)"
| "strstr (c # cs) needle = (if starts_with needle (c # cs) then Some (c # cs) else strstr cs needle)"

definition contains :: "string \<Rightarrow> string \<Rightarrow> bool" where
  "contains s needle \<longleftrightarrow> strstr s needle \<noteq> None"

lemma starts_with_iff: "starts_with p s \<longleftrightarrow> (\<exists>t. s = p @ t)"
  by (induction p s rule: starts_with.induct) auto

lemma contains_iff: "contains s needle \<longleftrightarrow> (\<exists>a b. s = a @ needle @ b)"
proof (induction s)
  case Nil
  show ?case by (simp add: contains_def)
next
  case (Cons c cs)
  have "(\<exists>a b. c # cs = a @ needle @ b) \<longleftrightarrow>
      starts_with needle (c # cs) \<or> (\<exists>a b. cs = a @ needle @ b)"
    by (auto simp: starts_with_iff Cons_eq_append_conv)
  then show ?case using Cons.IH by (auto simp: contains_def)
qed

fun strchr :: "string \<Rightarrow> char \<Rightarrow> string option" where
  "strchr [] x = None"
| "strchr (c # cs) x = (if c = x then Some (c # cs) else strchr cs x)"

fun strrchr :: "string \<Rightarrow> char \<Rightarrow> string option" where
  "strrchr [] x = None"
| "strrchr (c # cs) x =
     (case strrchr cs x of Some s \<Rightarrow> Some s | None \<Rightarrow> if c = x then Some (c # cs) else None)"

lemma strchr_Some: "strchr s x = Some t \<Longrightarrow> \<exists>a. s = a @ t \<and> x \<notin> set a \<and> (\<exists>u. t = x # u)"
proof (induction s)
  case (Cons c cs)
  show ?case
  proof (cases "c = x")
    case False
    then obtain a u where "cs = a @ t" "x \<notin> set a" "t = x # u" using Cons by auto
    with False show ?thesis by (intro exI [of _ "c # a"]) auto
  qed (use Cons in auto)
qed simp

lemma strchr_None: "strchr s x = None \<longleftrightarrow> x \<notin> set s"
  by (induction s) auto

text \<open>The line a pointer points into, cut at its newline.\<close>

definition cut_line :: "string \<Rightarrow> string" where
  "cut_line s = takeWhile (\<lambda>c. c \<noteq> CHR 0x0A) s"

subsection \<open>Reading lines\<close>

text \<open>
  \<open>fgets(line, n, fp)\<close> reads up to \<open>n - 1\<close> characters and stops after a newline, so a longer line
  arrives in pieces; \<open>fgets_lines\<close> is the sequence of strings a loop over it sees.
\<close>

fun fgets_line :: "nat \<Rightarrow> string \<Rightarrow> string \<times> string" where
  "fgets_line 0 s = ([], s)"
| "fgets_line (Suc n) [] = ([], [])"
| "fgets_line (Suc n) (c # cs) =
     (if c = CHR 0x0A then ([c], cs) else (let (l, r) = fgets_line n cs in (c # l, r)))"

lemma fgets_line_split: "fgets_line n s = (l, r) \<Longrightarrow> s = l @ r \<and> length l \<le> n"
  by (induction n s arbitrary: l rule: fgets_line.induct) (auto split: if_splits prod.splits)

lemma fgets_line_progress: "fgets_line (Suc n) (c # cs) = (l, r) \<Longrightarrow> length r < Suc (length cs)"
  by (auto dest!: fgets_line_split split: if_splits prod.splits)

function fgets_lines :: "nat \<Rightarrow> string \<Rightarrow> string list" where
  "fgets_lines n s =
     (if s = [] \<or> n < 2 then []
      else (let (l, r) = fgets_line (n - 1) s in l # fgets_lines n r))"
  by pat_completeness auto
termination
proof (relation "measure (\<lambda>(n, s). length s)")
  fix n and s l r :: string and x
  assume "\<not> (s = [] \<or> n < 2)" and "x = fgets_line (n - 1) s" and "(l, r) = x"
  then show "((n, r), n, s) \<in> measure (\<lambda>(n, s). length s)"
    by (cases s; cases "n - 1") (auto simp del: fgets_line.simps(3) dest: fgets_line_progress [OF sym])
qed simp

declare fgets_lines.simps [simp del]

lemma length_fgets_lines: "l \<in> set (fgets_lines n s) \<Longrightarrow> length l \<le> n - 1"
proof (induction n s rule: fgets_lines.induct)
  case (1 n s)
  obtain k r where kr: "fgets_line (n - 1) s = (k, r)" by (cases "fgets_line (n - 1) s")
  have go: "\<not> (s = [] \<or> n < 2)" and "l = k \<or> l \<in> set (fgets_lines n r)"
    using 1(2) kr by (subst (asm) fgets_lines.simps, simp split: if_splits)+
  then show ?case using 1(1) [OF go kr [symmetric] refl] fgets_line_split [OF kr] by blast
qed

lemma concat_fgets_lines: "2 \<le> n \<Longrightarrow> concat (fgets_lines n s) = s"
proof (induction n s rule: fgets_lines.induct)
  case (1 n s)
  then show ?case
    by (subst fgets_lines.simps) (auto split: prod.splits dest: fgets_line_split)
qed

subsection \<open>Scanning hexadecimal numbers\<close>

text \<open>
  The conversion \<open>%lx\<close>: leading white space, an optional sign and prefix, then hexadecimal digits,
  with the saturation and negation of \<open>strtoul\<close>; the result is the value and the rest of the input.
\<close>

definition is_space :: "char \<Rightarrow> bool" where
  "is_space c \<longleftrightarrow> c \<in> {CHR 0x09, CHR 0x0A, CHR 0x0B, CHR 0x0C, CHR 0x0D, CHR '' ''}"

definition hex_value :: "char \<Rightarrow> nat option" where
  "hex_value c =
     (let n = of_char c in
      if 48 \<le> n \<and> n \<le> 57 then Some (n - 48)
      else if 97 \<le> n \<and> n \<le> 102 then Some (n - 87)
      else if 65 \<le> n \<and> n \<le> 70 then Some (n - 55)
      else None)"

fun hex_digits :: "nat \<Rightarrow> string \<Rightarrow> nat \<times> string" where
  "hex_digits acc [] = (acc, [])"
| "hex_digits acc (c # cs) =
     (case hex_value c of Some d \<Rightarrow> hex_digits (16 * acc + d) cs | None \<Rightarrow> (acc, c # cs))"

definition starts_hex :: "string \<Rightarrow> bool" where
  "starts_hex s \<longleftrightarrow> (case s of [] \<Rightarrow> False | c # _ \<Rightarrow> hex_value c \<noteq> None)"

definition strip_sign :: "string \<Rightarrow> bool \<times> string" where
  "strip_sign s =
     (case s of c # cs \<Rightarrow> if c = CHR ''-'' then (True, cs) else if c = CHR ''+'' then (False, cs) else (False, s)
      | [] \<Rightarrow> (False, s))"

definition strip_0x :: "string \<Rightarrow> string" where
  "strip_0x s = (if starts_with ''0x'' s \<or> starts_with ''0X'' s then drop 2 s else s)"

definition scan_lx :: "string \<Rightarrow> (u64 \<times> string) option" where
  "scan_lx s =
     (let (neg, t) = strip_sign (dropWhile is_space s); u = strip_0x t in
      if \<not> starts_hex u then None
      else (let (n, rest) = hex_digits 0 u;
                v = (if n < 2 ^ 64 then of_nat n else - 1) in
            Some (if neg \<and> n < 2 ^ 64 then - v else v, rest)))"

text \<open>\<open>sscanf(line, "%lx-%lx", ..) == 2\<close>.\<close>

definition scan_range :: "string \<Rightarrow> (u64 \<times> u64) option" where
  "scan_range s =
     (case scan_lx s of
        Some (a, c # rest) \<Rightarrow>
          if c = CHR ''-'' then (case scan_lx rest of Some (b, _) \<Rightarrow> Some (a, b) | None \<Rightarrow> None) else None
      | _ \<Rightarrow> None)"

lemma contains_skip: "c \<notin> set xs \<Longrightarrow> contains (xs @ s) (c # needle) = contains s (c # needle)"
  by (induction xs) (auto simp: contains_def)

subsection \<open>Formatting\<close>

definition digit_char :: "nat \<Rightarrow> char" where
  "digit_char d = (if d < 10 then char_of (48 + d) else char_of (87 + d))"

fun show_base :: "nat \<Rightarrow> nat \<Rightarrow> string" where
  "show_base b n =
     (if n < b \<or> b < 2 then [digit_char n] else show_base b (n div b) @ [digit_char (n mod b)])"

declare show_base.simps [simp del]

abbreviation show_dec :: "nat \<Rightarrow> string" where "show_dec \<equiv> show_base 10"
abbreviation show_hex :: "nat \<Rightarrow> string" where "show_hex \<equiv> show_base 16"

definition show_int :: "int \<Rightarrow> string" where
  "show_int i = (if i < 0 then CHR ''-'' # show_dec (nat (- i)) else show_dec (nat i))"

definition pad_left :: "char \<Rightarrow> nat \<Rightarrow> string \<Rightarrow> string" where
  "pad_left c n s = replicate (n - length s) c @ s"

definition pad_right :: "nat \<Rightarrow> string \<Rightarrow> string" where
  "pad_right n s = s @ replicate (n - length s) (CHR '' '')"

definition newline :: string where "newline = [CHR 0x0A]"
definition quote :: string where "quote = [CHR 0x22]"

subsection \<open>Printing and scanning back\<close>

lemma hex_value_digit: "d < 16 \<Longrightarrow> hex_value (digit_char d) = Some d"
  by (simp add: hex_value_def digit_char_def Let_def)

lemma hex_digits_append:
  "\<forall>c \<in> set ds. hex_value c \<noteq> None \<Longrightarrow> hex_digits acc (ds @ s) =
     hex_digits (fst (hex_digits acc ds)) s"
  by (induction ds arbitrary: acc) auto

lemma show_hex_digits:
  "(\<forall>c \<in> set (show_hex n). hex_value c \<noteq> None) \<and> show_hex n \<noteq> [] \<and>
   (\<forall>acc. hex_digits acc (show_hex n) = (16 ^ length (show_hex n) * acc + n, []))"
proof (induction n rule: less_induct)
  case (less n)
  show ?case
  proof (cases "n < 16")
    case True
    then show ?thesis by (simp add: show_base.simps [of 16 n] hex_value_digit)
  next
    case False
    then have IH: "(\<forall>c \<in> set (show_hex (n div 16)). hex_value c \<noteq> None) \<and> show_hex (n div 16) \<noteq> [] \<and>
        (\<forall>acc. hex_digits acc (show_hex (n div 16)) = (16 ^ length (show_hex (n div 16)) * acc + n div 16, []))"
      by (intro less) auto
    have digits: "show_hex n = show_hex (n div 16) @ [digit_char (n mod 16)]"
      using False by (simp add: show_base.simps [of 16 n])
    show ?thesis unfolding digits using IH
      by (simp add: hex_digits_append hex_value_digit algebra_simps)
  qed
qed

text \<open>The value of a digit string, and that formatting is inverted by it.\<close>

definition read_base :: "nat \<Rightarrow> string \<Rightarrow> nat" where
  "read_base b ds = foldl (\<lambda>acc c. b * acc + the (hex_value c)) 0 ds"

lemma show_base_digits:
  assumes "2 \<le> b" and "b \<le> 16"
  shows "(\<forall>c \<in> set (show_base b n). hex_value c \<noteq> None) \<and> read_base b (show_base b n) = n"
proof (induction n rule: less_induct)
  case (less n)
  have "n mod b < 16" using assms mod_less_divisor [of b n] by linarith
  then have digit: "hex_value (digit_char (n mod b)) = Some (n mod b)" by (rule hex_value_digit)
  show ?case
  proof (cases "n < b")
    case True
    then show ?thesis using digit by (simp add: show_base.simps [of b n] read_base_def)
  next
    case False
    then have "n div b < n" using assms(1) by simp
    from less.IH [OF this] show ?thesis
      using False assms(1) digit by (simp add: show_base.simps [of b n] read_base_def)
  qed
qed

lemma hex_char_plain:
  assumes "hex_value c \<noteq> None"
  shows "\<not> is_space c" and "c \<noteq> CHR ''-''" and "c \<noteq> CHR ''+''" and "c \<noteq> CHR ''x''" and "c \<noteq> CHR ''X''"
  using assms by (auto simp: hex_value_def is_space_def)

lemma scan_lx_digits:
  assumes "\<forall>d \<in> set ds. hex_value d \<noteq> None" and "ds \<noteq> []" and "hex_digits 0 ds = (n, [])"
    and "n < 2 ^ 64" and "hex_value c = None" and "c \<notin> {CHR ''x'', CHR ''X''}"
  shows "scan_lx (ds @ c # rest) = Some (of_nat n, c # rest)"
proof -
  obtain d es where ds: "ds = d # es" using assms(2) by (cases ds) auto
  then have d: "hex_value d \<noteq> None" using assms(1) by simp
  note plain = hex_char_plain [OF d]
  have "strip_sign (dropWhile is_space (ds @ c # rest)) = (False, ds @ c # rest)"
    using plain by (simp add: ds strip_sign_def)
  moreover have "strip_0x (ds @ c # rest) = ds @ c # rest"
  proof (cases es)
    case Nil
    then show ?thesis using assms(6) by (auto simp: strip_0x_def ds)
  next
    case (Cons e fs)
    then have "hex_value e \<noteq> None" using assms(1) ds by simp
    then show ?thesis using hex_char_plain(4,5) [of e] by (auto simp: strip_0x_def ds Cons)
  qed
  moreover have "starts_hex (ds @ c # rest)" using d by (simp add: starts_hex_def ds)
  moreover have "hex_digits 0 (ds @ c # rest) = (n, c # rest)"
    using hex_digits_append [OF assms(1), of 0 "c # rest"] assms(3,5) by simp
  ultimately show ?thesis using assms(4) by (simp add: scan_lx_def)
qed

text \<open>A number printed with leading zeros is scanned back.\<close>

definition show_addr :: "u64 \<Rightarrow> string" where
  "show_addr a = pad_left (CHR ''0'') 8 (show_hex (unat a))"

lemma length_show_hex: "n < 16 ^ Suc k \<Longrightarrow> length (show_hex n) \<le> Suc k"
proof (induction k arbitrary: n)
  case 0
  then show ?case by (simp add: show_base.simps [of 16 n])
next
  case (Suc k)
  then have "length (show_hex (n div 16)) \<le> Suc k" by (simp add: less_mult_imp_div_less)
  then show ?case by (subst show_base.simps) simp
qed

lemma length_show_addr: "length (show_addr a) \<le> 16"
  using length_show_hex [of "unat a" 15] unsigned_less [of a, where 'a = nat]
  by (simp add: show_addr_def pad_left_def)

lemma hex_value_0: "hex_value (CHR ''0'') = Some 0"
  by (simp add: hex_value_def)

lemma hex_digits_zeros: "hex_digits 0 (replicate m (CHR ''0'') @ ds) = hex_digits 0 ds"
  by (induction m) (simp_all add: hex_value_0)

lemma scan_show_addr:
  assumes "hex_value c = None" and "c \<notin> {CHR ''x'', CHR ''X''}"
  shows "scan_lx (show_addr a @ c # rest) = Some (a, c # rest)"
proof -
  have "hex_digits 0 (show_addr a) = (unat a, [])"
    using show_hex_digits [of "unat a"] by (simp add: show_addr_def pad_left_def hex_digits_zeros)
  moreover have "\<forall>d \<in> set (show_addr a). hex_value d \<noteq> None" "show_addr a \<noteq> []"
    using show_hex_digits [of "unat a"] by (auto simp: show_addr_def pad_left_def hex_value_0)
  moreover have "unat a < 2 ^ 64" using unsigned_less [of a, where 'a = nat] by simp
  ultimately show ?thesis using scan_lx_digits [OF _ _ _ _ assms] by simp
qed

lemma set_show_addr: "c \<in> set (show_addr a) \<Longrightarrow> hex_value c \<noteq> None"
  using show_hex_digits [of "unat a"] by (auto simp: show_addr_def pad_left_def hex_value_0)

lemma scan_range_show:
  "hex_value c = None \<Longrightarrow> c \<notin> {CHR ''x'', CHR ''X''} \<Longrightarrow>
     scan_range (show_addr a @ CHR ''-'' # show_addr b @ c # rest) = Some (a, b)"
  using scan_show_addr [of "CHR ''-''" a "show_addr b @ c # rest"] scan_show_addr [of c b rest]
  by (simp add: scan_range_def hex_value_def)

subsection \<open>Line-structured text\<close>

lemma fgets_line_short:
  "CHR 0x0A \<notin> set l \<Longrightarrow> length l < n \<Longrightarrow> fgets_line n (l @ newline @ r) = (l @ newline, r)"
proof (induction l arbitrary: n)
  case Nil
  then show ?case by (cases n) (simp_all add: newline_def)
next
  case (Cons c l)
  then show ?case by (cases n) auto
qed

lemma fgets_lines_text:
  assumes "\<forall>l \<in> set ls. CHR 0x0A \<notin> set l \<and> Suc (length l) < n"
  shows "fgets_lines n (concat (map (\<lambda>l. l @ newline) ls)) = map (\<lambda>l. l @ newline) ls"
  using assms
proof (induction ls)
  case Nil
  then show ?case by (simp add: fgets_lines.simps)
next
  case (Cons l ls)
  then have "fgets_line (n - 1) (l @ newline @ concat (map (\<lambda>l. l @ newline) ls)) =
      (l @ newline, concat (map (\<lambda>l. l @ newline) ls))"
    by (intro fgets_line_short) auto
  moreover have "newline \<noteq> []" by (simp add: newline_def)
  ultimately show ?case using Cons by (subst fgets_lines.simps) simp
qed

end
