(* ===== verification/CompilerPass.thy ===== *)
theory CompilerPass
  imports Shared CStr
begin

text \<open>
  \<open>src/compiler/SentinelPass.cpp\<close>: the LLVM pass that finds system call sites and emits the
  policy table. The intermediate representation is the input: a module is its functions, a
  function its basic blocks, and of an instruction only what the pass inspects is kept. LLVM's
  parse of the constraint string is part of the input; the addresses that block labels and
  functions get at link time are parameters.
\<close>

subsection \<open>The view of the intermediate representation\<close>

datatype constraint_type = isInput | isOutput | isClobber | isLabel

record asm_constraint =
  c_type :: constraint_type
  c_indirect :: bool
  c_codes :: "string list"

datatype ir_value = ConstantInt int | OtherValue

datatype ir_instr =
    CallAsm string "asm_constraint list" "ir_value list"
  | CallDirect string
  | CallIndirect
  | OtherInstr

record ir_function =
  fn_name :: string
  fn_declaration :: bool
  fn_use_empty :: bool
  fn_blocks :: "ir_instr list list"

subsection \<open>Known wrappers and their numbers\<close>

definition isKnownSyscallWrapper :: "string \<Rightarrow> bool" where
  "isKnownSyscallWrapper name \<longleftrightarrow> name \<in> set
     [''write'', ''read'', ''open'', ''close'', ''lseek'',
      ''__write'', ''__read'', ''__open'', ''__close'',
      ''__libc_write'', ''__libc_read'', ''__libc_open'', ''__libc_close'',
      ''__sys_write'', ''__sys_read'',
      ''syscall'',
      ''openat'', ''fstat'', ''stat'', ''lstat'', ''fstatat'',
      ''fork'', ''vfork'', ''clone'', ''execve'', ''execveat'',
      ''mmap'', ''munmap'', ''mprotect'', ''mremap'', ''brk'',
      ''socket'', ''connect'', ''bind'', ''listen'', ''accept'', ''accept4'',
      ''send'', ''sendto'', ''recv'', ''recvfrom'', ''sendmsg'', ''recvmsg'',
      ''ptrace'', ''kill'', ''tkill'', ''tgkill'',
      ''sigaction'', ''rt_sigaction'', ''rt_sigprocmask'',
      ''printf'', ''fprintf'', ''vprintf'', ''vfprintf'', ''sprintf'', ''snprintf'', ''dprintf'',
      ''puts'', ''fputs'', ''putchar'', ''fputc'', ''putc'',
      ''fwrite'', ''fread'', ''fflush'',
      ''fopen'', ''fclose'', ''fdopen'', ''freopen'',
      ''fgets'', ''fgetc'', ''getchar'', ''getline'', ''getdelim'',
      ''perror'']"

definition wrapper_numbers :: "(string \<times> int) list" where
  "wrapper_numbers =
     [(''write'', 1), (''__write'', 1), (''__libc_write'', 1),
      (''read'', 0), (''__read'', 0), (''__libc_read'', 0),
      (''open'', 2), (''__open'', 2), (''__libc_open'', 2),
      (''close'', 3), (''__close'', 3), (''__libc_close'', 3),
      (''lseek'', 8), (''openat'', 257), (''fstat'', 5), (''stat'', 4), (''lstat'', 6),
      (''fstatat'', 262),
      (''fork'', 57), (''vfork'', 58), (''clone'', 56), (''execve'', 59), (''execveat'', 322),
      (''mmap'', 9), (''munmap'', 11), (''mprotect'', 10), (''mremap'', 25), (''brk'', 12),
      (''socket'', 41), (''connect'', 42), (''bind'', 49), (''listen'', 50), (''accept'', 43),
      (''accept4'', 288), (''send'', 44), (''sendto'', 44), (''recv'', 45), (''recvfrom'', 45),
      (''sendmsg'', 46), (''recvmsg'', 47),
      (''ptrace'', 101), (''kill'', 62), (''tkill'', 200), (''tgkill'', 234),
      (''sigaction'', 13), (''rt_sigaction'', 13), (''rt_sigprocmask'', 14)]"

definition getSyscallNumberForWrapper :: "string \<Rightarrow> int" where
  "getSyscallNumberForWrapper name =
     (case map_of wrapper_numbers name of Some nr \<Rightarrow> nr | None \<Rightarrow> - 1)"

subsection \<open>The number an inline assembly call passes in \<open>RAX\<close>\<close>

fun rax_scan :: "asm_constraint list \<Rightarrow> ir_value list \<Rightarrow> nat \<Rightarrow> int" where
  "rax_scan [] args argIdx = - 1"
| "rax_scan (C # Cs) args argIdx =
     (case c_type C of
        isOutput \<Rightarrow> rax_scan Cs args (if c_indirect C then Suc argIdx else argIdx)
      | isInput \<Rightarrow>
          if list_ex (\<lambda>code. code \<in> set [''a'', ''{ax}'', ''{rax}'', ''{eax}'']) (c_codes C)
          then (if argIdx < length args
                then (case args ! argIdx of ConstantInt v \<Rightarrow> v | OtherValue \<Rightarrow> - 1)
                else - 1)
          else rax_scan Cs args (Suc argIdx)
      | _ \<Rightarrow> rax_scan Cs args argIdx)"

definition extractSyscallNumberFromAsm :: "asm_constraint list \<Rightarrow> ir_value list \<Rightarrow> int" where
  "extractSyscallNumberFromAsm constraints args = rax_scan constraints args 0"

subsection \<open>Regular expressions for obfuscated encodings\<close>

text \<open>
  The two patterns are sequences of single characters and character classes, optional, repeated or
  not, and one word boundary. Matching is existential over all ways to match, from any position of
  the subject; \<open>prev\<close> is the character before the current position. Letters match in either case
  (\<open>std::regex::icase\<close>).
\<close>

datatype rx = One "char list" | Opt "char list" | Star "char list" | Plus "char list" | WordB

definition word_char :: "char \<Rightarrow> bool" where
  "word_char c \<longleftrightarrow> c \<in> set ''abcdefghijklmnopqrstuvwxyzABCDEFGHIJKLMNOPQRSTUVWXYZ0123456789_''"

definition at_word_boundary :: "char option \<Rightarrow> string \<Rightarrow> bool" where
  "at_word_boundary prev s \<longleftrightarrow>
     (case prev of None \<Rightarrow> False | Some c \<Rightarrow> word_char c) \<noteq>
     (case s of [] \<Rightarrow> False | c # _ \<Rightarrow> word_char c)"

function rx_match :: "rx list \<Rightarrow> char option \<Rightarrow> string \<Rightarrow> bool" where
  "rx_match [] prev s = True"
| "rx_match (One cs # rs) prev s =
     (case s of [] \<Rightarrow> False | x # xs \<Rightarrow> x \<in> set cs \<and> rx_match rs (Some x) xs)"
| "rx_match (Opt cs # rs) prev s =
     (rx_match rs prev s \<or> (case s of [] \<Rightarrow> False | x # xs \<Rightarrow> x \<in> set cs \<and> rx_match rs (Some x) xs))"
| "rx_match (Star cs # rs) prev s =
     (rx_match rs prev s \<or>
      (case s of [] \<Rightarrow> False | x # xs \<Rightarrow> x \<in> set cs \<and> rx_match (Star cs # rs) (Some x) xs))"
| "rx_match (Plus cs # rs) prev s =
     (case s of [] \<Rightarrow> False | x # xs \<Rightarrow> x \<in> set cs \<and> rx_match (Star cs # rs) (Some x) xs)"
| "rx_match (WordB # rs) prev s = (at_word_boundary prev s \<and> rx_match rs prev s)"
  by pat_completeness auto
termination
  by (relation "measure (\<lambda>(rs, prev, s). length rs + 2 * length s)") auto

fun regex_search_from :: "rx list \<Rightarrow> char option \<Rightarrow> string \<Rightarrow> bool" where
  "regex_search_from rs prev [] = rx_match rs prev []"
| "regex_search_from rs prev (x # xs) =
     (rx_match rs prev (x # xs) \<or> regex_search_from rs (Some x) xs)"

definition regex_search :: "rx list \<Rightarrow> string \<Rightarrow> bool" where
  "regex_search rs s = regex_search_from rs None s"

definition ws :: "char list" where
  "ws = [CHR 0x09, CHR 0x0A, CHR 0x0B, CHR 0x0C, CHR 0x0D, CHR '' '']"

definition dot_byte :: "rx list" where
  "dot_byte = [One ''.'', One ''bB'', One ''yY'', One ''tT'', One ''eE'', Plus ws]"

definition opt_dot_byte :: "rx list" where
  "opt_dot_byte = [Opt ''.'', Opt ''bB'', Opt ''yY'', Opt ''tT'', Opt ''eE'', Star ws]"

definition HexPat :: "rx list" where
  "HexPat = dot_byte @ [One ''0'', One ''xX'', Opt ''0'', One ''fF'', Star ws, One '',;'', Star ws] @
     opt_dot_byte @ [One ''0'', One ''xX'', Opt ''0'', One ''5'']"

definition DecPat :: "rx list" where
  "DecPat = dot_byte @ [One ''1'', One ''5'', Star ws, One '',;'', Star ws] @
     opt_dot_byte @ [One ''5'', WordB]"

definition containsObfuscatedSyscall :: "string \<Rightarrow> bool" where
  "containsObfuscatedSyscall s \<longleftrightarrow>
     regex_search HexPat s \<or> regex_search DecPat s \<or>
     contains s (CHR 0x5C # ''x0f'' @ CHR 0x5C # ''x05'') \<or>
     contains s (CHR 0x5C # ''x0F'' @ CHR 0x5C # ''x05'')"

subsection \<open>The pass\<close>

definition IsSyscall :: "ir_instr \<Rightarrow> bool" where
  "IsSyscall I =
     (case I of
        CallAsm asm_str _ _ \<Rightarrow>
          contains asm_str ''syscall'' \<or> contains asm_str ''int $0x80'' \<or>
          contains asm_str ''int $$0x80'' \<or> contains asm_str ''svc #0'' \<or>
          contains asm_str ''svc 0'' \<or> containsObfuscatedSyscall asm_str
      | CallDirect callee \<Rightarrow> isKnownSyscallWrapper callee
      | _ \<Rightarrow> False)"

text \<open>A site is a function's index and the running index of the instruction in it.\<close>

type_synonym site = "nat \<times> nat"

definition function_sites :: "nat \<Rightarrow> ir_function \<Rightarrow> (site \<times> ir_instr) list" where
  "function_sites f F =
     (if fn_declaration F then []
      else map (\<lambda>(i, I). ((f, i), I))
             (filter (\<lambda>(i, I). IsSyscall I) (enumerate 0 (concat (fn_blocks F)))))"

definition Syscalls :: "ir_function list \<Rightarrow> (site \<times> ir_instr) list" where
  "Syscalls M = concat (map (\<lambda>(f, F). function_sites f F) (enumerate 0 M))"

definition ExternalImports :: "ir_function list \<Rightarrow> string set" where
  "ExternalImports M =
     set (map fn_name (filter (\<lambda>F. fn_declaration F \<and> fn_name F \<noteq> [] \<and> \<not> fn_use_empty F \<and>
                                  \<not> starts_with ''llvm.'' (fn_name F)) M))"

definition SyscallNr :: "ir_instr \<Rightarrow> int" where
  "SyscallNr I =
     (case I of
        CallAsm _ constraints args \<Rightarrow> extractSyscallNumberFromAsm constraints args
      | CallDirect callee \<Rightarrow> getSyscallNumberForWrapper callee
      | _ \<Rightarrow> - 1)"

definition EncodedNr :: "int \<Rightarrow> int" where
  "EncodedNr nr = (if nr \<ge> 0 then nr + 1 else 0)"

definition PolicyEntries :: "(site \<Rightarrow> u64) \<Rightarrow> (nat \<Rightarrow> u64) \<Rightarrow> ir_function list \<Rightarrow> policy_entry list" where
  "PolicyEntries block_addr fn_addr M =
     (let entries = map (\<lambda>(s, I). \<lparr>site_addr = block_addr s, func_addr = fn_addr (fst s),
                           syscall_nr = word_of_int (EncodedNr (SyscallNr I))\<rparr>) (Syscalls M)
      in if entries = [] then [\<lparr>site_addr = 0, func_addr = 0, syscall_nr = 0\<rparr>] else entries)"

definition HeaderInit :: "nat \<Rightarrow> sentinel_header" where
  "HeaderInit n = \<lparr>hdr_magic = (0x7F, 0x53, 0x45, 0x4E), hdr_version = 1, hdr_count = of_nat n\<rparr>"

definition policy_section :: "policy_entry list \<Rightarrow> u8 list" where
  "policy_section es =
     sentinel_header_bytes (HeaderInit (length es)) @ concat (map policy_entry_bytes es)"

definition POLICY_SECTION :: string where
  "POLICY_SECTION = ''.llvm.syscall.bounds''"

text \<open>
  What running the pass leaves in the module: the section it emits, the new \<open>llvm.used\<close> list and
  whether the module was modified.
\<close>

record pass_result =
  out_section :: "string \<times> u8 list"
  out_llvm_used :: "string list"
  out_modified :: bool

definition SentinelPass_run ::
  "(site \<Rightarrow> u64) \<Rightarrow> (nat \<Rightarrow> u64) \<Rightarrow> string list option \<Rightarrow> ir_function list \<Rightarrow> pass_result" where
  "SentinelPass_run block_addr fn_addr llvm_used M =
     \<lparr>out_section = (POLICY_SECTION, policy_section (PolicyEntries block_addr fn_addr M)),
      out_llvm_used = (case llvm_used of None \<Rightarrow> [] | Some us \<Rightarrow> us) @ [''__sentinel_policy''],
      out_modified = (Syscalls M \<noteq> [])\<rparr>"

subsection \<open>Matching lemmas\<close>

declare rx_match.simps [simp del]

lemmas rx_simps = rx_match.simps(1-3,6)

lemma rx_match_Star:
  "set w \<subseteq> set cs \<Longrightarrow> (\<And>q. rx_match rs q s) \<Longrightarrow> rx_match (Star cs # rs) p (w @ s)"
  by (induction w arbitrary: p) (simp_all add: rx_match.simps(4))

lemma rx_match_Plus:
  "set w \<subseteq> set cs \<Longrightarrow> w \<noteq> [] \<Longrightarrow> (\<And>q. rx_match rs q s) \<Longrightarrow> rx_match (Plus cs # rs) p (w @ s)"
  by (cases w) (simp_all add: rx_match_Star rx_match.simps(5))

lemma regex_search_from_suffix:
  "(\<And>q. rx_match rs q s) \<Longrightarrow> regex_search_from rs p (a @ s)"
proof (induction a arbitrary: p)
  case Nil
  then show ?case by (cases s) auto
qed auto

definition hex_five :: "rx list" where
  "hex_five = [One ''0'', One ''xX'', Opt ''0'', One ''5'']"

lemma hex_five_match:
  assumes "b \<in> {''0x05'', ''0x5''}"
  shows "rx_match hex_five q (b @ post)"
  using assms by (auto simp: hex_five_def rx_simps)

lemma opt_dot_byte_match:
  assumes "d \<in> {[], ''.byte ''}" and "\<And>q. rx_match rs q s"
  shows "rx_match (opt_dot_byte @ rs) q (d @ s)"
proof -
  have none: "rx_match (Star ws # rs) q s" for q
    using rx_match_Star [of "[]" ws rs s] assms(2) by simp
  have blank: "rx_match (Star ws # rs) q (CHR '' '' # s)" for q
    using rx_match_Star [of "'' ''" ws rs s] assms(2) by (simp add: ws_def)
  from assms(1) consider "d = []" | "d = ''.byte ''" by auto
  then show ?thesis
    by cases (simp_all add: opt_dot_byte_def rx_simps none blank)
qed

lemma HexPat_match:
  assumes "set w1 \<subseteq> set ws" "w1 \<noteq> []" "set w2 \<subseteq> set ws" "set w3 \<subseteq> set ws"
    and "sep \<in> {CHR '','', CHR '';''}" and "a \<in> {''0x0f'', ''0xf'', ''0x0F'', ''0xF''}"
    and "d \<in> {[], ''.byte ''}" and "b \<in> {''0x05'', ''0x5''}"
  shows "rx_match HexPat p (''.byte'' @ w1 @ a @ w2 @ [sep] @ w3 @ d @ b @ post)"
proof -
  let ?fifth = "opt_dot_byte @ hex_five"
  have fifth: "rx_match (Star ws # ?fifth) q (w3 @ d @ b @ post)" for q
    by (intro rx_match_Star assms(4) opt_dot_byte_match assms(7) hex_five_match assms(8))
  then have "rx_match (One '',;'' # Star ws # ?fifth) q ([sep] @ w3 @ d @ b @ post)" for q
    using assms(5) by (auto simp: rx_simps)
  from rx_match_Star [OF assms(3) this]
  have "rx_match (One ''0'' # One ''xX'' # Opt ''0'' # One ''fF'' # Star ws # One '',;'' # Star ws # ?fifth)
      q (a @ w2 @ [sep] @ w3 @ d @ b @ post)" for q
    using assms(6) by (auto simp: rx_simps)
  from rx_match_Plus [OF assms(1,2) this] show ?thesis
    by (simp add: HexPat_def dot_byte_def rx_simps hex_five_def)
qed

subsection \<open>Sites of a module\<close>

definition is_site :: "ir_function list \<Rightarrow> nat \<Rightarrow> nat \<Rightarrow> bool" where
  "is_site M f i \<longleftrightarrow> f < length M \<and> \<not> fn_declaration (M ! f) \<and>
     i < length (concat (fn_blocks (M ! f))) \<and> IsSyscall (concat (fn_blocks (M ! f)) ! i)"

lemma set_function_sites:
  "((g, i), I) \<in> set (function_sites f F) \<longleftrightarrow> g = f \<and> \<not> fn_declaration F \<and>
     i < length (concat (fn_blocks F)) \<and> I = concat (fn_blocks F) ! i \<and> IsSyscall I"
proof -
  have "((g, i), I) \<in> set (function_sites f F) \<longleftrightarrow> g = f \<and> \<not> fn_declaration F \<and>
      (i, I) \<in> set (enumerate 0 (concat (fn_blocks F))) \<and> IsSyscall I"
    unfolding function_sites_def by (auto simp del: set_concat simp: image_iff)
  then show ?thesis by (auto simp: in_set_enumerate_eq)
qed

lemma set_Syscalls:
  "((f, i), I) \<in> set (Syscalls M) \<longleftrightarrow> is_site M f i \<and> I = concat (fn_blocks (M ! f)) ! i"
proof -
  have "((f, i), I) \<in> set (Syscalls M) \<longleftrightarrow>
      (\<exists>g F. (g, F) \<in> set (enumerate 0 M) \<and> ((f, i), I) \<in> set (function_sites g F))"
    unfolding Syscalls_def set_concat set_map by auto
  then show ?thesis by (auto simp: set_function_sites in_set_enumerate_eq is_site_def)
qed

lemma sint_EncodedNr:
  assumes "- 1 \<le> nr" and "nr < 2 ^ 63 - 1"
  shows "sint (word_of_int (EncodedNr nr) :: u64) = EncodedNr nr"
proof -
  have "signed_take_bit 63 (EncodedNr nr) = EncodedNr nr"
    using assms by (intro signed_take_bit_int_eq_self) (auto simp: EncodedNr_def)
  then show ?thesis by (simp add: signed_of_int)
qed

subsection \<open>Properties\<close>

text \<open>
  C7: The pass records exactly the system call sites of the module: an entry is in the table if and
  only if it carries the label address, the function address and the encoded number of an
  instruction of a function body that is recognised as a system call; a module with none gets the
  single null entry.
\<close>

theorem policy_table_exact:
  "e \<in> set (PolicyEntries block_addr fn_addr M) \<longleftrightarrow>
     (\<exists>f i. is_site M f i \<and>
        e = \<lparr>site_addr = block_addr (f, i), func_addr = fn_addr f,
             syscall_nr = word_of_int (EncodedNr (SyscallNr (concat (fn_blocks (M ! f)) ! i)))\<rparr>) \<or>
     (\<forall>f i. \<not> is_site M f i) \<and> e = \<lparr>site_addr = 0, func_addr = 0, syscall_nr = 0\<rparr>"
proof (cases "Syscalls M = []")
  case True
  then have none: "\<not> is_site M f i" for f i
    using set_Syscalls [of f i "concat (fn_blocks (M ! f)) ! i" M] by simp
  with True show ?thesis by (simp add: PolicyEntries_def)
next
  case False
  then obtain f i I where "((f, i), I) \<in> set (Syscalls M)"
    by (metis list.set_intros(1) neq_Nil_conv prod.exhaust)
  then have some: "\<exists>f i. is_site M f i" by (auto simp: set_Syscalls)
  have "e \<in> set (PolicyEntries block_addr fn_addr M) \<longleftrightarrow>
      (\<exists>f i I. ((f, i), I) \<in> set (Syscalls M) \<and>
        e = \<lparr>site_addr = block_addr (f, i), func_addr = fn_addr f,
             syscall_nr = word_of_int (EncodedNr (SyscallNr I))\<rparr>)"
    using False by (force simp: PolicyEntries_def Let_def)
  with some show ?thesis by (auto simp: set_Syscalls)
qed

text \<open>
  Every wrapper the pass binds to a number is one of the wrappers it records as a site.
\<close>

lemma wrapper_with_number_known: 
  assumes "getSyscallNumberForWrapper name \<noteq> - 1"
  shows "isKnownSyscallWrapper name"
proof -
  from assms obtain nr where "map_of wrapper_numbers name = Some nr"
    by (auto simp: getSyscallNumberForWrapper_def split: option.splits)
  then have "name \<in> set (map fst wrapper_numbers)"
    by (metis map_of_eq_None_iff option.simps(3) list.set_map)
  moreover have "list_all isKnownSyscallWrapper (map fst wrapper_numbers)"
    by (simp add: wrapper_numbers_def isKnownSyscallWrapper_def)
  ultimately show ?thesis by (auto simp: list_all_iff)
qed

text \<open>
  C30: A system call instruction hidden as two hexadecimal bytes is recognised, for any text around
  it, any white space, a comma or a semicolon between the bytes, a repeated directive and either
  spelling of each byte.
\<close>

theorem hex_obfuscation_detected:
  assumes "set w1 \<subseteq> set ws" "w1 \<noteq> []" "set w2 \<subseteq> set ws" "set w3 \<subseteq> set ws"
    and "sep \<in> {CHR '','', CHR '';''}" and "a \<in> {''0x0f'', ''0xf'', ''0x0F'', ''0xF''}"
    and "d \<in> {[], ''.byte ''}" and "b \<in> {''0x05'', ''0x5''}"
  shows "IsSyscall (CallAsm (pre @ ''.byte'' @ w1 @ a @ w2 @ [sep] @ w3 @ d @ b @ post) constraints args)"
  using regex_search_from_suffix [OF HexPat_match [OF assms], of None pre post]
  by (simp add: IsSyscall_def containsObfuscatedSyscall_def regex_search_def)

theorem hex_obfuscation_detected_witness:
  "IsSyscall (CallAsm ''nop; .byte 0x0f, 0x05; nop'' [] [])"
  using hex_obfuscation_detected [of "'' ''" "[]" "'' ''" "CHR '',''" "''0x0f''" "[]" "''0x05''"
      "''nop; ''" "''; nop''" "[]" "[]"]
  by (simp add: ws_def)

text \<open>
  Two byte directives on consecutive lines assemble to the same instruction and are not
  recognised.
\<close>

lemma newline_separated_bytes_missed:
  "\<not> IsSyscall (CallAsm (''.byte 0x0f'' @ [CHR 0x0A] @ ''.byte 0x05'') constraints args)"
  by (simp add: IsSyscall_def containsObfuscatedSyscall_def regex_search_def contains_def HexPat_def
      DecPat_def dot_byte_def opt_dot_byte_def rx_match.simps ws_def at_word_boundary_def)

end
