(* ===== verification/ElfView.thy ===== *)
theory ElfView
  imports Shared
begin

text \<open>
  What the tools see of an ELF file through libelf: the results of \<open>gelf_getphdr\<close>,
  \<open>elf_nextscn\<close>/\<open>gelf_getshdr\<close>, \<open>elf_strptr\<close>, \<open>elf_getdata\<close> and \<open>gelf_getsym\<close> as data, in the
  order the library enumerates them. Opening a file is one of four outcomes, so that every early
  return of the callers is a branch. A null string or data pointer is \<open>None\<close>.
\<close>

text \<open>
  Section data: \<open>Data bs\<close> has its bytes in memory, \<open>NoBits n\<close> has size \<open>n\<close> and a null buffer.
\<close>

datatype elf_data = Data "u8 list" | NoBits nat

primrec d_size :: "elf_data \<Rightarrow> nat" where
  "d_size (Data bs) = length bs"
| "d_size (NoBits n) = n"

primrec d_buf :: "elf_data \<Rightarrow> u8 list option" where
  "d_buf (Data bs) = Some bs"
| "d_buf (NoBits n) = None"

record gelf_phdr =
  p_type :: nat
  p_vaddr :: u64

text \<open>\<open>st_type\<close> is \<open>GELF_ST_TYPE\<close> of the symbol's info byte, \<open>st_name\<close> the string it resolves to.\<close>

record gelf_sym =
  st_name :: "string option"
  st_value :: u64
  st_size :: u64
  st_type :: nat

text \<open>
  \<open>scn_sym i\<close> is what the local \<open>GElf_Sym\<close> holds after \<open>gelf_getsym\<close> at index \<open>i\<close>.
\<close>

record elf_scn =
  sh_name :: "string option"
  sh_type :: nat
  sh_flags :: u64
  sh_addr :: u64
  sh_size :: u64
  sh_entsize :: u64
  scn_data :: "elf_data option"
  scn_sym :: "nat \<Rightarrow> gelf_sym"

record elf_view =
  e_phdrs :: "gelf_phdr option list"
  e_shstrndx_ok :: bool
  e_scns :: "elf_scn list"

datatype elf_open = ElfVersionNone | OpenFailed | BeginFailed | ElfOpened elf_view

definition PT_LOAD :: nat where "PT_LOAD = 1"
definition SHT_PROGBITS :: nat where "SHT_PROGBITS = 1"
definition SHT_SYMTAB :: nat where "SHT_SYMTAB = 2"
definition SHT_DYNSYM :: nat where "SHT_DYNSYM = 11"
definition SHF_EXECINSTR :: u64 where "SHF_EXECINSTR = 4"
definition STT_FUNC :: nat where "STT_FUNC = 2"

text \<open>
  The number of symbols of a table, \<open>(int)(sh_size / sh_entsize)\<close>, and the symbols a loop over it
  reads; \<open>None\<close> is the division by zero of a table with entry size 0.
\<close>

definition scn_syms :: "elf_scn \<Rightarrow> gelf_sym list option" where
  "scn_syms sc =
     (if sh_entsize sc = 0 then None
      else Some (map (scn_sym sc) [0..<nat (c_int (unat (sh_size sc) div unat (sh_entsize sc)))]))"

definition is_exec_progbits :: "elf_scn \<Rightarrow> bool" where
  "is_exec_progbits sc \<longleftrightarrow> sh_type sc = SHT_PROGBITS \<and> sh_flags sc AND SHF_EXECINSTR \<noteq> 0"

end
