(* ===== verification/DumpTool.thy ===== *)
theory DumpTool
  imports CompilerPass ElfView
begin

text \<open>
  \<open>src/runtime/sentinel_dump.c\<close>: the policy inspector. The output of the program is the list of
  the strings it prints, in order.
\<close>

subsection \<open>Names of system calls\<close>

definition syscall_names :: "(int \<times> string) list" where
  "syscall_names =
     [(0, ''read''), (1, ''write''), (2, ''open''), (3, ''close''), (9, ''mmap''), (10, ''mprotect''),
      (16, ''ioctl''), (33, ''dup2''), (42, ''connect''), (46, ''sendmsg''), (56, ''clone''),
      (57, ''fork''), (59, ''execve''), (101, ''ptrace''), (157, ''prctl''), (257, ''openat''),
      (311, ''process_vm_writev''), (317, ''seccomp''), (319, ''memfd_create'')]"

definition syscall_name :: "int \<Rightarrow> string option" where
  "syscall_name nr = map_of syscall_names nr"

subsection \<open>Printing one entry\<close>

definition dump_nr :: "policy_entry \<Rightarrow> int" where
  "dump_nr e = (let nr_raw = sint (syscall_nr e) in
     if nr_raw > 0 then c_int (nat (nr_raw - 1)) else - 1)"

definition dump_json_entry :: "u64 \<Rightarrow> bool \<Rightarrow> policy_entry \<Rightarrow> string" where
  "dump_json_entry text_vaddr is_last e =
     (let nr = dump_nr e; name = (if nr \<ge> 0 then syscall_name nr else None);
          site_offset = site_addr e - text_vaddr in
      ''    {'' @ quote @ ''site'' @ quote @ '':'' @ quote @ ''0x'' @ show_hex (unat (site_addr e)) @ quote @
      '','' @ quote @ ''func'' @ quote @ '':'' @ quote @ ''0x'' @ show_hex (unat (func_addr e)) @ quote @
      '','' @ quote @ ''offset'' @ quote @ '':'' @ quote @ ''0x'' @ show_hex (unat site_offset) @ quote @
      (if nr \<ge> 0
       then '','' @ quote @ ''syscall_nr'' @ quote @ '':'' @ show_int nr @
            (case name of
               Some n \<Rightarrow> '','' @ quote @ ''syscall_name'' @ quote @ '':'' @ quote @ n @ quote
             | None \<Rightarrow> [])
       else '','' @ quote @ ''syscall_nr'' @ quote @ '':'' @ quote @ ''any'' @ quote) @
      ''}'' @ (if is_last then [] else '','') @ newline)"

definition dump_text_entry :: "u64 \<Rightarrow> nat \<Rightarrow> policy_entry \<Rightarrow> string" where
  "dump_text_entry text_vaddr global_index e =
     (let nr = dump_nr e; name = (if nr \<ge> 0 then syscall_name nr else None);
          site_offset = site_addr e - text_vaddr in
      ''  ['' @ pad_left (CHR '' '') 3 (show_dec global_index) @ '']  0x'' @
      pad_left (CHR ''0'') 16 (show_hex (unat (site_addr e))) @ '' 0x'' @
      pad_left (CHR ''0'') 16 (show_hex (unat (func_addr e))) @ '' 0x'' @
      pad_left (CHR ''0'') 8 (show_hex (unat site_offset)) @
      (if nr \<ge> 0
       then (case name of
               Some n \<Rightarrow> '' '' @ n @ '' ('' @ show_int nr @ '')'' @ newline
             | None \<Rightarrow> '' NR='' @ show_int nr @ newline)
       else '' (any)'' @ newline))"

subsection \<open>Walking the section\<close>

text \<open>
  The entries of one table, starting at index \<open>g\<close>; \<open>at_end\<close> says that the table ends the section,
  so that its last entry is the last one of the output.
\<close>

fun dump_entries :: "bool \<Rightarrow> u64 \<Rightarrow> bool \<Rightarrow> nat \<Rightarrow> policy_entry list \<Rightarrow> string list" where
  "dump_entries json text_vaddr at_end g [] = []"
| "dump_entries json text_vaddr at_end g (e # es) =
     (if json then dump_json_entry text_vaddr (at_end \<and> es = []) e
      else dump_text_entry text_vaddr g e) # dump_entries json text_vaddr at_end (Suc g) es"

function dump_loop :: "bool \<Rightarrow> u8 list \<Rightarrow> u64 \<Rightarrow> nat \<Rightarrow> nat \<Rightarrow> string list \<times> nat" where
  "dump_loop json buf text_vaddr off g =
     (if off + 9 \<le> length buf then
        (let hdr = read_sentinel_header (drop off buf) in
         if hdr_magic hdr \<noteq> (0x7F, 0x53, 0x45, 0x4E) then
           ((if json then [] else [''  [ERROR] Invalid magic bytes at offset '' @ show_dec off @ ''.'' @ newline]), g)
         else
           (let expected_size = 9 + unat (hdr_count hdr) * 24 in
            if off + expected_size > length buf then
              ((if json then []
                else [''  [ERROR] Section too small for declared count at offset '' @ show_dec off @ ''.'' @ newline]), g)
            else
              (let entries = dec_array 24 read_policy_entry (unat (hdr_count hdr)) (drop (off + 9) buf);
                   out = dump_entries json text_vaddr (off + expected_size \<ge> length buf) g entries;
                   (rest, g') = dump_loop json buf text_vaddr (off + expected_size) (g + length entries)
               in (out @ rest, g'))))
      else ([], g))"
  by pat_completeness auto
termination
  by (relation "measure (\<lambda>(json, buf, text_vaddr, off, g). length buf - off)") auto

declare dump_loop.simps [simp del]

definition dump_sentinel :: "bool \<Rightarrow> elf_data option \<Rightarrow> u64 \<Rightarrow> string list" where
  "dump_sentinel json data text_vaddr =
     (case data of
        Some (Data buf) \<Rightarrow>
          if length buf < 9 then [''  (empty or missing header)'' @ newline]
          else
            (let (out, global_index) = dump_loop json buf text_vaddr 0 0 in
             (if json then [''  '' @ quote @ ''llvm_syscall_bounds'' @ quote @ '': ['' @ newline]
              else [''  '' @ pad_right 6 ''Index'' @ '' '' @ pad_right 18 ''Site Address'' @ '' '' @
                      pad_right 18 ''Function'' @ '' '' @ pad_right 10 ''Offset'' @ '' Syscall'' @ newline,
                    ''  '' @ pad_right 6 ''-----'' @ '' '' @ pad_right 18 ''------------------'' @ '' '' @
                      pad_right 18 ''------------------'' @ '' '' @ pad_right 10 ''----------'' @ '' -------'' @ newline])
             @ out @
             (if json then [''  ]'']
              else [''  Total: '' @ show_dec global_index @ '' syscall site(s) across all translation units'' @ newline]))
      | _ \<Rightarrow> [''  (empty or missing header)'' @ newline])"

subsection \<open>The command\<close>

datatype dump_cli = DumpHelp | DumpVersion | DumpUsage | DumpFile bool string

fun dump_args :: "bool \<Rightarrow> string list \<Rightarrow> dump_cli" where
  "dump_args json [] = DumpUsage"
| "dump_args json (a # as) =
     (if a = ''--help'' \<or> a = ''-h'' then DumpHelp
      else if a = ''--version'' \<or> a = ''-v'' then DumpVersion
      else if a = ''--json'' then dump_args True as
      else DumpFile json a)"

record dump_scan =
  text_vaddr :: u64
  sec_sentinel :: "elf_data option"
  sec_found :: bool

fun dump_scan_sections :: "elf_scn list \<Rightarrow> dump_scan \<Rightarrow> dump_scan" where
  "dump_scan_sections [] d = d"
| "dump_scan_sections (sc # scs) d =
     dump_scan_sections scs
       (case sh_name sc of
          None \<Rightarrow> d
        | Some name \<Rightarrow>
            if name = ''.text'' then d\<lparr>text_vaddr := sh_addr sc\<rparr>
            else if name = ''.llvm.syscall.bounds''
            then d\<lparr>sec_sentinel := scn_data sc, sec_found := True\<rparr>
            else d)"

definition DUMP_VERSION :: string where "DUMP_VERSION = ''4.2.0-research''"

definition box_line :: "nat \<Rightarrow> string" where
  "box_line n = concat (replicate n [CHR 0xE2, CHR 0x94, CHR 0x80])"

text \<open>Exit status and standard output; \<open>opened\<close> is what opening a path with libelf gives.\<close>

definition dump_main :: "string \<Rightarrow> (string \<Rightarrow> elf_open) \<Rightarrow> string list \<Rightarrow> int \<times> string list" where
  "dump_main argv0 opened args =
     (case dump_args False args of
        DumpHelp \<Rightarrow>
          (0, [''Sentinel-CC Policy Inspector v'' @ DUMP_VERSION @ newline @ newline,
               ''Usage: '' @ argv0 @ '' [--json] <binary>'' @ newline @ newline,
               ''Reads and displays the .llvm.syscall.bounds section from an ELF binary.'' @ newline])
      | DumpVersion \<Rightarrow> (0, [''Sentinel-CC Policy Inspector v'' @ DUMP_VERSION @ newline])
      | DumpUsage \<Rightarrow> (1, [])
      | DumpFile json path \<Rightarrow>
          (case opened path of
             ElfOpened e \<Rightarrow>
               if \<not> e_shstrndx_ok e then (1, [])
               else
                 (let d = dump_scan_sections (e_scns e)
                            \<lparr>text_vaddr = 0, sec_sentinel = None, sec_found = False\<rparr> in
                  if \<not> sec_found d then (1, [])
                  else if json then
                    (0, [''{'' @ newline @ ''  '' @ quote @ ''binary'' @ quote @ '': '' @ quote @ path @ quote @
                           '','' @ newline @ ''  '' @ quote @ ''text_vaddr'' @ quote @ '': '' @ quote @ ''0x'' @
                           show_hex (unat (text_vaddr d)) @ quote @ '','' @ newline]
                        @ dump_sentinel True (sec_sentinel d) (text_vaddr d) @
                        [newline @ ''}'' @ newline])
                  else
                    (0, [''Sentinel-CC Policy Inspector v'' @ DUMP_VERSION @ newline,
                         ''Binary: '' @ path @ newline,
                         ''.text vaddr: 0x'' @ show_hex (unat (text_vaddr d)) @ newline @ newline,
                         box_line 2 @ '' .llvm.syscall.bounds (Syscall Policy) '' @ box_line 23 @ newline]
                        @ dump_sentinel False (sec_sentinel d) (text_vaddr d) @
                        [newline, ''Sections present: .llvm.syscall.bounds'' @ newline]))
           | _ \<Rightarrow> (1, [])))"

subsection \<open>Walking what the pass emits\<close>

lemma read_HeaderInit:
  "read_sentinel_header (policy_section es @ bs) = HeaderInit (length es)"
  by (simp add: policy_section_def codec_simps)

lemma length_policy_section [size_simps]: "length (policy_section es) = 9 + 24 * length es"
  by (simp add: policy_section_def size_simps)

lemma drop_policy_section: "drop 9 (policy_section es) = concat (map policy_entry_bytes es)"
  by (simp add: policy_section_def size_simps)

lemma policy_section_not_Nil [simp]: "policy_section es \<noteq> []"
  using length_policy_section [of es] by auto

lemma dump_entries_append:
  "dump_entries json tv at_end g (es @ fs) =
     dump_entries json tv (at_end \<and> fs = []) g es @ dump_entries json tv at_end (g + length es) fs"
  by (induction es arbitrary: g) (auto simp: conj_ac)

lemma dump_loop_section:
  assumes "length es < 2 ^ 32"
  shows "dump_loop json (pre @ policy_section es @ bs) tv (length pre) g =
    (let (rest, g') = dump_loop json (pre @ policy_section es @ bs) tv
           (length (pre @ policy_section es)) (g + length es)
     in (dump_entries json tv (bs = []) g es @ rest, g'))"
proof -
  have n: "unat (of_nat (length es) :: u32) = length es"
    using assms by (simp add: unat_of_nat take_bit_eq_mod)
  show ?thesis
    by (subst dump_loop.simps)
      (simp add: read_HeaderInit HeaderInit_def n drop_policy_section codec_simps size_simps
        Let_def algebra_simps)
qed

lemma dump_loop_end: "length buf < off + 9 \<Longrightarrow> dump_loop json buf tv off g = ([], g)"
  by (subst dump_loop.simps) simp

lemma dump_loop_tables:
  assumes "\<forall>t \<in> set ts. t \<noteq> [] \<and> length t < 2 ^ 32"
  shows "dump_loop json (pre @ concat (map policy_section ts)) tv (length pre) g =
    (dump_entries json tv True g (concat ts), g + length (concat ts))"
  using assms
proof (induction ts arbitrary: pre g)
  case Nil
  then show ?case by (simp add: dump_loop_end)
next
  case (Cons t ts)
  have last: "concat (map policy_section ts) = [] \<longleftrightarrow> concat ts = []"
    using Cons.prems by (cases ts) auto
  have rest: "dump_loop json (pre @ policy_section t @ concat (map policy_section ts)) tv
      (length (pre @ policy_section t)) (g + length t) =
      (dump_entries json tv True (g + length t) (concat ts), g + length t + length (concat ts))"
    using Cons.IH [of "pre @ policy_section t" "g + length t"] Cons.prems by simp
  show ?case
    using dump_loop_section [of t json pre "concat (map policy_section ts)" tv g, unfolded rest last]
      Cons.prems
    by (simp add: dump_entries_append)
qed

lemma dump_entries_text:
  "dump_entries False tv at_end g es = map (\<lambda>(i, e). dump_text_entry tv i e) (enumerate g es)"
  by (induction es arbitrary: g) auto

text \<open>
  What JSON asks of the output: strings and numbers, objects as members separated by commas, and the
  members that describe an entry.
\<close>

fun join :: "string \<Rightarrow> string list \<Rightarrow> string" where
  "join sep [] = []"
| "join sep [x] = x"
| "join sep (x # y # ys) = x @ sep @ join sep (y # ys)"

datatype json_value = JStr string | JInt int

fun json_text :: "json_value \<Rightarrow> string" where
  "json_text (JStr s) = quote @ s @ quote"
| "json_text (JInt i) = show_int i"

definition json_object :: "(string \<times> json_value) list \<Rightarrow> string" where
  "json_object ms = ''{'' @ join '','' (map (\<lambda>(k, v). quote @ k @ quote @ '':'' @ json_text v) ms) @ ''}''"

definition entry_members :: "u64 \<Rightarrow> policy_entry \<Rightarrow> (string \<times> json_value) list" where
  "entry_members tv e =
     [(''site'', JStr (''0x'' @ show_hex (unat (site_addr e)))),
      (''func'', JStr (''0x'' @ show_hex (unat (func_addr e)))),
      (''offset'', JStr (''0x'' @ show_hex (unat (site_addr e - tv)))),
      (''syscall_nr'', if dump_nr e < 0 then JStr ''any'' else JInt (dump_nr e))] @
     (case (if dump_nr e < 0 then None else syscall_name (dump_nr e)) of
        None \<Rightarrow> [] | Some n \<Rightarrow> [(''syscall_name'', JStr n)])"

lemma dump_json_entry_members:
  "dump_json_entry tv is_last e =
     ''    '' @ json_object (entry_members tv e) @ (if is_last then [] else '','') @ newline"
  by (simp add: dump_json_entry_def json_object_def entry_members_def Let_def split: option.split)

lemma concat_joined:
  "xs \<noteq> [] \<Longrightarrow> concat (map (\<lambda>x. f x @ sep @ newline) (butlast xs)) @ f (last xs) @ rest =
     join (sep @ newline) (map f xs) @ rest"
proof (induction xs)
  case (Cons x xs)
  then show ?case by (cases xs) simp_all
qed simp

lemma dump_entries_json_more: "dump_entries True tv False g es = map (dump_json_entry tv False) es"
  by (induction es arbitrary: g) auto

lemma dump_entries_json_end:
  "es \<noteq> [] \<Longrightarrow> dump_entries True tv True g es =
     map (dump_json_entry tv False) (butlast es) @ [dump_json_entry tv True (last es)]"
  by (induction es arbitrary: g) (auto simp: dump_entries_json_more)

lemma length_tables: "ts \<noteq> [] \<Longrightarrow> 9 \<le> length (concat (map policy_section ts))"
  by (cases ts) (simp_all add: size_simps)

subsection \<open>Example tables\<close>

definition ex_entry :: policy_entry where
  "ex_entry = \<lparr>site_addr = 0x401000, func_addr = 0x400F00, syscall_nr = 2\<rparr>"

definition ex_other :: policy_entry where
  "ex_other = \<lparr>site_addr = 0x20, func_addr = 0x10, syscall_nr = 0\<rparr>"

lemma ex_members:
  "entry_members 0 ex_entry = [(''site'', JStr ''0x401000''), (''func'', JStr ''0x400f00''), (''offset'', JStr ''0x401000''),
     (''syscall_nr'', JInt 1), (''syscall_name'', JStr ''write'')]"
  "entry_members 0 ex_other = [(''site'', JStr ''0x20''), (''func'', JStr ''0x10''), (''offset'', JStr ''0x20''),
     (''syscall_nr'', JStr ''any'')]"
  by (simp_all add: entry_members_def ex_entry_def ex_other_def dump_nr_def c_int_def syscall_name_def syscall_names_def
      show_base.simps digit_char_def char_of_def bit_0)

subsection \<open>Properties\<close>

text \<open>
  C8: Inspecting a linked section recovers what the pass recorded: for any sequence of emitted
  tables the inspector prints one line per entry, in order, numbered from 0 through all
  translation units, and the total is the number of entries.
\<close>

theorem dump_recovers_tables:
  assumes "ts \<noteq> []" and "\<forall>t \<in> set ts. t \<noteq> [] \<and> length t < 2 ^ 32"
  shows "\<exists>heading rule. dump_sentinel False (Some (Data (concat (map policy_section ts)))) tv =
    heading # rule # map (\<lambda>(i, e). dump_text_entry tv i e) (enumerate 0 (concat ts)) @
    [''  Total: '' @ show_dec (length (concat ts)) @
     '' syscall site(s) across all translation units'' @ newline]"
  using length_tables [OF assms(1)] dump_loop_tables [OF assms(2), of False "[]" tv 0]
  by (simp add: dump_sentinel_def dump_entries_text)

theorem dump_recovers_tables_witness:
  "length (dump_sentinel False (Some (Data (policy_section [ex_entry] @ policy_section [ex_entry]))) 0) = 5"
  using dump_recovers_tables [of "[[ex_entry], [ex_entry]]" 0] by auto

text \<open>
  C35: In JSON mode the same tables give a well-formed array: the text printed piece by piece is that
  of one object per entry of the whole section, in order, with exactly one comma between two objects
  and none after the last, and each object has the members \<open>site\<close>, \<open>func\<close>, \<open>offset\<close>, \<open>syscall_nr\<close>
  and, for a number with a known name, \<open>syscall_name\<close>, separated the same way.
\<close>

theorem dump_json_array:
  assumes "ts \<noteq> []" and "\<forall>t \<in> set ts. t \<noteq> [] \<and> length t < 2 ^ 32"
  shows "concat (dump_sentinel True (Some (Data (concat (map policy_section ts)))) tv) =
    ''  '' @ quote @ ''llvm_syscall_bounds'' @ quote @ '': ['' @ newline @
    join ('','' @ newline) (map (\<lambda>e. ''    '' @ json_object (entry_members tv e)) (concat ts)) @ newline @ ''  ]''"
proof -
  have "concat ts \<noteq> []" using assms by (cases ts) auto
  moreover have "dump_json_entry tv False = (\<lambda>e. (''    '' @ json_object (entry_members tv e)) @ '','' @ newline)"
    by (simp add: fun_eq_iff dump_json_entry_members)
  ultimately show ?thesis
    using length_tables [OF assms(1)] dump_loop_tables [OF assms(2), of True "[]" tv 0]
      concat_joined [of "concat ts" "\<lambda>e. ''    '' @ json_object (entry_members tv e)" "'',''"]
    by (simp add: dump_sentinel_def dump_entries_json_end dump_json_entry_members [of tv True])
qed

theorem dump_json_array_witness:
  "concat (dump_sentinel True (Some (Data (policy_section [ex_entry] @ policy_section [ex_other]))) 0) =
    ''  '' @ quote @ ''llvm_syscall_bounds'' @ quote @ '': ['' @ newline @
    ''    {'' @ quote @ ''site'' @ quote @ '':'' @ quote @ ''0x401000'' @ quote @
      '','' @ quote @ ''func'' @ quote @ '':'' @ quote @ ''0x400f00'' @ quote @
      '','' @ quote @ ''offset'' @ quote @ '':'' @ quote @ ''0x401000'' @ quote @
      '','' @ quote @ ''syscall_nr'' @ quote @ '':1'' @
      '','' @ quote @ ''syscall_name'' @ quote @ '':'' @ quote @ ''write'' @ quote @ ''},'' @ newline @
    ''    {'' @ quote @ ''site'' @ quote @ '':'' @ quote @ ''0x20'' @ quote @
      '','' @ quote @ ''func'' @ quote @ '':'' @ quote @ ''0x10'' @ quote @
      '','' @ quote @ ''offset'' @ quote @ '':'' @ quote @ ''0x20'' @ quote @
      '','' @ quote @ ''syscall_nr'' @ quote @ '':'' @ quote @ ''any'' @ quote @ ''}'' @ newline @
    ''  ]''"
  using dump_json_array [of "[[ex_entry], [ex_other]]" 0] by (simp add: ex_members json_object_def show_int_def show_base.simps digit_char_def char_of_def bit_0)

text \<open>
  Trailing bytes too short for another header leave every entry followed by a comma: the
  array ends in a dangling comma, which is not JSON.
\<close>

lemma dump_json_dangling_comma:
  assumes "es \<noteq> []" and "length es < 2 ^ 32" and "junk \<noteq> []" and "length junk < 9"
  shows "dump_sentinel True (Some (Data (policy_section es @ junk))) tv =
    [''  '' @ quote @ ''llvm_syscall_bounds'' @ quote @ '': ['' @ newline] @
    map (dump_json_entry tv False) es @ [''  ]'']"
  using dump_loop_section [of es True "[]" junk tv 0] assms
  by (simp add: dump_sentinel_def dump_loop_end size_simps dump_entries_json_more)

text \<open>
  The number the inspector reports for an entry is the number the pass extracted, and \<open>-1\<close>
  (shown as any) exactly when the pass found none.
\<close>

lemma dump_nr_roundtrip:
  assumes "- 1 \<le> nr" and "nr < 2 ^ 31"
  shows "dump_nr \<lparr>site_addr = s, func_addr = f, syscall_nr = word_of_int (EncodedNr nr)\<rparr> = nr"
proof -
  have "c_int (nat nr) = nr" if "0 \<le> nr" using that assms(2) by (simp add: c_int_small)
  then show ?thesis
    using assms sint_EncodedNr [of nr] by (simp add: dump_nr_def EncodedNr_def Let_def)
qed

end
