(* ===== verification/BpfMaps.thy ===== *)
theory BpfMaps
  imports Shared
begin

text \<open>
  The BPF maps declared in \<open>src/kernel/sentinel.bpf.c\<close> and the kernel interface through which the
  loader fills them. The enforcer only ever looks keys up, so it sees the maps as a
  \<open>map_view\<close>: for every map, what \<open>bpf_map_lookup_elem\<close> returns. The loader goes through
  \<open>bpf_map_update_elem\<close> and \<open>bpf_create_map\<close>, which are kernel code: they are the fields of a
  parameter \<open>bpf_kernel\<close>, with the documented behaviour the loader relies on as the laws of the
  locale \<open>bpf_kernel_laws\<close>. The interpretation at the end discharges the laws for association
  lists of the capacities (\<open>max_entries\<close>) the map declarations give.
\<close>

subsection \<open>What the enforcer sees\<close>

type_synonym map_handle = nat

record map_view =
  target_pid_map :: "u32 \<rightharpoonup> u32"
  cgroup_map :: "u64 \<rightharpoonup> u32"
  fallback_policy :: "u32 \<rightharpoonup> u32"
  vma_map :: "vma_key \<rightharpoonup> vma_value"
  policy_registry :: "u32 \<rightharpoonup> map_handle"
  inner_policy :: "map_handle \<Rightarrow> u64 \<rightharpoonup> u64"
  cfi_policy :: "u64 \<rightharpoonup> cfi_range"

subsection \<open>Longest-prefix match\<close>

text \<open>
  A trie key is matched bit by bit from the first byte's top bit; an entry is identified by its
  \<open>prefixlen\<close> leading bits. Looking a key up yields the entry with the longest prefix of it.
\<close>

definition key_prefix :: "vma_key \<Rightarrow> bool list" where
  "key_prefix k = take (unat (prefixlen k)) (byte_bits (le64 (key_addr k)))"

fun lpm :: "(bool list \<rightharpoonup> 'v) \<Rightarrow> bool list \<Rightarrow> nat \<Rightarrow> 'v option" where
  "lpm es bits 0 = es []"
| "lpm es bits (Suc n) =
     (case es (take (Suc n) bits) of Some v \<Rightarrow> Some v | None \<Rightarrow> lpm es bits n)"

lemma lpm_Some_prefix: "lpm es bits n = Some v \<Longrightarrow> \<exists>m\<le>n. es (take m bits) = Some v"
  by (induction n) (auto split: option.splits intro: le_SucI)

lemma lpm_None_iff: "lpm es bits n = None \<longleftrightarrow> (\<forall>m\<le>n. es (take m bits) = None)"
  by (induction n) (auto split: option.splits simp: le_Suc_eq)

text \<open>When all entries have the same length \<open>p\<close>, a lookup is one exact probe.\<close>

lemma lpm_uniform:
  assumes "\<And>q. q \<in> dom es \<Longrightarrow> length q = p" and "p \<le> n" and "n \<le> length bits"
  shows "lpm es bits n = es (take p bits)"
  using assms(2,3)
proof (induction n)
  case 0
  then show ?case by simp
next
  case (Suc n)
  show ?case
  proof (cases "p = Suc n")
    case True
    have "lpm es bits n = None" if "es (take (Suc n) bits) = None"
      unfolding lpm_None_iff
    proof (intro allI impI)
      fix m assume "m \<le> n"
      then have "length (take m bits) \<noteq> p" using True Suc.prems(2) by simp
      then show "es (take m bits) = None" using assms(1) by (metis domIff)
    qed
    with True show ?thesis by (auto split: option.splits)
  next
    case False
    then have "es (take (Suc n) bits) = None"
      using assms(1) [of "take (Suc n) bits"] Suc.prems
      by (cases "es (take (Suc n) bits)") auto
    with False Suc show ?thesis by simp
  qed
qed

text \<open>
  The trie key of the one-megabyte block that holds an address: the 44 leading bits of the
  byte-swapped address, \<open>VMA_BLOCK_PREFIX\<close> in the loader. Two addresses share it exactly when
  they lie in the same aligned block.
\<close>

definition block_key :: "u64 \<Rightarrow> bool list" where
  "block_key a = take 44 (byte_bits (le64 (bswap64 a)))"

lemma block_key_eq_iff: "block_key a = block_key b \<longleftrightarrow> unat a div 2 ^ 20 = unat b div 2 ^ 20"
  using take_key_bits_eq_iff [of 44 a b] by (simp add: block_key_def)

lemma length_block_key [simp]: "length (block_key a) = 44"
  by (simp add: block_key_def)

lemma key_prefix_44: "key_prefix \<lparr>prefixlen = 44, key_addr = bswap64 a\<rparr> = block_key a"
  by (simp add: key_prefix_def block_key_def)

lemma key_prefix_64: "key_prefix \<lparr>prefixlen = 64, key_addr = a\<rparr> = byte_bits (le64 a)"
  by (simp add: key_prefix_def)

subsection \<open>The kernel interface\<close>

datatype update_flags = BPF_ANY | BPF_NOEXIST

record 's bpf_kernel =
  kview :: "'s \<Rightarrow> map_view"
  vma_entries :: "'s \<Rightarrow> bool list \<rightharpoonup> vma_value"
  bpf_create_map :: "'s \<Rightarrow> map_handle option \<times> 's"
  policy_update :: "'s \<Rightarrow> map_handle \<Rightarrow> u64 \<Rightarrow> u64 \<Rightarrow> update_flags \<Rightarrow> int \<times> 's"
  registry_update :: "'s \<Rightarrow> u32 \<Rightarrow> map_handle \<Rightarrow> update_flags \<Rightarrow> int \<times> 's"
  vma_update :: "'s \<Rightarrow> vma_key \<Rightarrow> vma_value \<Rightarrow> update_flags \<Rightarrow> int \<times> 's"
  cfi_update :: "'s \<Rightarrow> u64 \<Rightarrow> cfi_range \<Rightarrow> update_flags \<Rightarrow> int \<times> 's"
  pid_update :: "'s \<Rightarrow> u32 \<Rightarrow> u32 \<Rightarrow> update_flags \<Rightarrow> int \<times> 's"

locale bpf_kernel_laws =
  fixes K :: "'s bpf_kernel"
  assumes create_Some: "bpf_create_map K s = (Some h, s') \<Longrightarrow>
      kview K s' = (kview K s)\<lparr>inner_policy := (inner_policy (kview K s))(h := Map.empty)\<rparr> \<and>
      vma_entries K s' = vma_entries K s \<and> h \<notin> ran (policy_registry (kview K s))"
    and create_None: "bpf_create_map K s = (None, s') \<Longrightarrow>
      kview K s' = kview K s \<and> vma_entries K s' = vma_entries K s"
    and policy_ok: "policy_update K s h k v f = (0, s') \<Longrightarrow>
      kview K s' = (kview K s)\<lparr>inner_policy :=
        (inner_policy (kview K s))(h := (inner_policy (kview K s) h)(k \<mapsto> v))\<rparr> \<and>
      vma_entries K s' = vma_entries K s"
    and policy_fail: "policy_update K s h k v f = (r, s') \<Longrightarrow> r \<noteq> 0 \<Longrightarrow>
      kview K s' = kview K s \<and> vma_entries K s' = vma_entries K s"
    and policy_noexist: "fst (policy_update K s h k v BPF_NOEXIST) = 0 \<Longrightarrow>
      inner_policy (kview K s) h k = None"
    and registry_ok: "registry_update K s m h f = (0, s') \<Longrightarrow>
      kview K s' = (kview K s)\<lparr>policy_registry := (policy_registry (kview K s))(m \<mapsto> h)\<rparr> \<and>
      vma_entries K s' = vma_entries K s"
    and registry_fail: "registry_update K s m h f = (r, s') \<Longrightarrow> r \<noteq> 0 \<Longrightarrow>
      kview K s' = kview K s \<and> vma_entries K s' = vma_entries K s"
    and vma_ok: "vma_update K s vk vv f = (0, s') \<Longrightarrow>
      vma_entries K s' = (vma_entries K s)(key_prefix vk \<mapsto> vv) \<and>
      kview K s' = (kview K s)\<lparr>vma_map := vma_map (kview K s')\<rparr>"
    and vma_fail: "vma_update K s vk vv f = (r, s') \<Longrightarrow> r \<noteq> 0 \<Longrightarrow>
      kview K s' = kview K s \<and> vma_entries K s' = vma_entries K s"
    and vma_lookup: "vma_map (kview K s) vk =
      lpm (vma_entries K s) (key_prefix vk) (length (key_prefix vk))"
    and cfi_ok: "cfi_update K s k rg f = (0, s') \<Longrightarrow>
      kview K s' = (kview K s)\<lparr>cfi_policy := (cfi_policy (kview K s))(k \<mapsto> rg)\<rparr> \<and>
      vma_entries K s' = vma_entries K s"
    and cfi_fail: "cfi_update K s k rg f = (e, s') \<Longrightarrow> e \<noteq> 0 \<Longrightarrow>
      kview K s' = kview K s \<and> vma_entries K s' = vma_entries K s"
    and pid_ok: "pid_update K s p w f = (0, s') \<Longrightarrow>
      kview K s' = (kview K s)\<lparr>target_pid_map := (target_pid_map (kview K s))(p \<mapsto> w)\<rparr> \<and>
      vma_entries K s' = vma_entries K s"
    and pid_fail: "pid_update K s p w f = (e, s') \<Longrightarrow> e \<noteq> 0 \<Longrightarrow>
      kview K s' = kview K s \<and> vma_entries K s' = vma_entries K s"
begin

lemma vma_map_uniform:
  assumes "\<And>q. q \<in> dom (vma_entries K s) \<Longrightarrow> length q = 44"
  shows "vma_map (kview K s) \<lparr>prefixlen = 64, key_addr = bswap64 a\<rparr> =
    vma_entries K s (block_key a)"
  using assms by (simp add: vma_lookup key_prefix_64 block_key_def
      lpm_uniform [where p = 44])

end

text \<open>
  What an update with \<open>BPF_ANY\<close> promises for a key that is bound: \<open>E2BIG\<close> is for new elements, so
  the value is replaced. A trie stores the new value in a node of its own before it drops the old
  one, so there a free slot below the declared \<open>max_entries\<close> is asked for.
\<close>

definition VMA_MAX_ENTRIES :: nat where "VMA_MAX_ENTRIES = 512"

locale bpf_kernel_replace = bpf_kernel_laws +
  assumes policy_replace: "inner_policy (kview K s) h k \<noteq> None \<Longrightarrow> fst (policy_update K s h k v BPF_ANY) = 0"
    and vma_replace: "vma_entries K s (key_prefix vk) \<noteq> None \<Longrightarrow> card (dom (vma_entries K s)) < VMA_MAX_ENTRIES \<Longrightarrow>
      fst (vma_update K s vk vv BPF_ANY) = 0"

subsection \<open>Association-list maps of the declared capacities\<close>

fun alist_put :: "'k \<Rightarrow> 'v \<Rightarrow> ('k \<times> 'v) list \<Rightarrow> ('k \<times> 'v) list" where
  "alist_put k v [] = [(k, v)]"
| "alist_put k v ((k', v') # ps) = (if k' = k then (k, v) # ps else (k', v') # alist_put k v ps)"

lemma map_of_alist_put [simp]: "map_of (alist_put k v ps) = (map_of ps)(k \<mapsto> v)"
  by (induction ps) auto

text \<open>Failures are the kernel's error numbers: \<open>EEXIST\<close> is 17, \<open>E2BIG\<close> is 7.\<close>

definition alist_update ::
  "nat \<Rightarrow> ('k \<times> 'v) list \<Rightarrow> 'k \<Rightarrow> 'v \<Rightarrow> update_flags \<Rightarrow> int \<times> ('k \<times> 'v) list" where
  "alist_update cap ps k v f =
     (case map_of ps k of
        Some _ \<Rightarrow> if f = BPF_NOEXIST then (- 17, ps) else (0, alist_put k v ps)
      | None \<Rightarrow> if length ps < cap then (0, alist_put k v ps) else (- 7, ps))"

lemma alist_update_ok: "alist_update cap ps k v f = (0, ps') \<Longrightarrow> map_of ps' = (map_of ps)(k \<mapsto> v)"
  by (auto simp: alist_update_def split: option.splits if_splits)

lemma alist_update_fail: "alist_update cap ps k v f = (r, ps') \<Longrightarrow> r \<noteq> 0 \<Longrightarrow> ps' = ps"
  by (auto simp: alist_update_def split: option.splits if_splits)

lemma alist_update_noexist: "alist_update cap ps k v BPF_NOEXIST = (0, ps') \<Longrightarrow> map_of ps k = None"
  by (auto simp: alist_update_def split: option.splits if_splits)

record ref_state =
  ref_pids :: "(u32 \<times> u32) list"
  ref_vmas :: "(bool list \<times> vma_value) list"
  ref_registry :: "(u32 \<times> map_handle) list"
  ref_inner :: "map_handle \<Rightarrow> (u64 \<times> u64) list"
  ref_cfi :: "(u64 \<times> cfi_range) list"
  ref_next :: map_handle

definition ref_view :: "ref_state \<Rightarrow> map_view" where
  "ref_view s =
     \<lparr>target_pid_map = map_of (ref_pids s), cgroup_map = Map.empty, fallback_policy = Map.empty,
      vma_map = (\<lambda>k. lpm (map_of (ref_vmas s)) (key_prefix k) (length (key_prefix k))),
      policy_registry = map_of (ref_registry s), inner_policy = (\<lambda>h. map_of (ref_inner s h)),
      cfi_policy = map_of (ref_cfi s)\<rparr>"

definition ref_kernel :: "ref_state bpf_kernel" where
  "ref_kernel =
     \<lparr>kview = ref_view, vma_entries = (\<lambda>s. map_of (ref_vmas s)),
      bpf_create_map = (\<lambda>s. if list_all (\<lambda>(_, h). h < ref_next s) (ref_registry s)
        then (Some (ref_next s), s\<lparr>ref_inner := (ref_inner s)(ref_next s := []),
                ref_next := Suc (ref_next s)\<rparr>)
        else (None, s)),
      policy_update = (\<lambda>s h k v f. let (r, ps) = alist_update 4096 (ref_inner s h) k v f in
        (r, s\<lparr>ref_inner := (ref_inner s)(h := ps)\<rparr>)),
      registry_update = (\<lambda>s m h f. if unat m < 64 then
          let (r, ps) = alist_update 64 (ref_registry s) m h f in (r, s\<lparr>ref_registry := ps\<rparr>)
        else (- 7, s)),
      vma_update = (\<lambda>s k v f. let (r, ps) = alist_update 512 (ref_vmas s) (key_prefix k) v f in
        (r, s\<lparr>ref_vmas := ps\<rparr>)),
      cfi_update = (\<lambda>s k v f. let (r, ps) = alist_update 1024 (ref_cfi s) k v f in
        (r, s\<lparr>ref_cfi := ps\<rparr>)),
      pid_update = (\<lambda>s k v f. let (r, ps) = alist_update 64 (ref_pids s) k v f in
        (r, s\<lparr>ref_pids := ps\<rparr>))\<rparr>"

definition ref_empty :: ref_state where
  "ref_empty = \<lparr>ref_pids = [], ref_vmas = [], ref_registry = [], ref_inner = (\<lambda>_. []),
     ref_cfi = [], ref_next = 1\<rparr>"

lemmas ref_kernel_simps = ref_kernel_def ref_view_def

interpretation refk: bpf_kernel_laws ref_kernel
proof
qed (auto simp: ref_kernel_simps fun_eq_iff list_all_iff ran_def
    dest: alist_update_ok alist_update_fail alist_update_noexist map_of_SomeD
    split: if_splits prod.splits)

lemma alist_update_replace: "map_of ps k \<noteq> None \<Longrightarrow> fst (alist_update cap ps k v BPF_ANY) = 0"
  by (auto simp: alist_update_def)

interpretation refkr: bpf_kernel_replace ref_kernel
proof
  fix s :: ref_state and h k v
  assume "inner_policy (kview ref_kernel s) h k \<noteq> None"
  then have "map_of (ref_inner s h) k \<noteq> None" by (simp add: ref_kernel_simps)
  from alist_update_replace [OF this, of 4096 v]
  show "fst (policy_update ref_kernel s h k v BPF_ANY) = 0"
    by (auto simp: ref_kernel_def split: prod.splits)
next
  fix s :: ref_state and vk vv
  assume "vma_entries ref_kernel s (key_prefix vk) \<noteq> None"
  then have "map_of (ref_vmas s) (key_prefix vk) \<noteq> None" by (simp add: ref_kernel_def)
  from alist_update_replace [OF this, of 512 vv]
  show "fst (vma_update ref_kernel s vk vv BPF_ANY) = 0"
    by (auto simp: ref_kernel_def split: prod.splits)
qed

end
