(* ===== verification/Enforcer.thy ===== *)
theory Enforcer
  imports BpfMaps
begin

text \<open>
  \<open>src/kernel/sentinel.bpf.c\<close>: the eBPF programs attached to system call entry points. The
  read-only globals the loader sets are the record \<open>bpf_config\<close>; the results of the BPF helpers
  during one invocation (current task, cgroup, saved registers, user stack, clock, ring-buffer
  space) are the record \<open>hook_ctx\<close>; the maps are a \<^typ>\<open>map_view\<close>. A program returns 0 always:
  what it does is append to the ring buffer, send a signal and print to the trace pipe, the
  fields of \<open>enf_state\<close>.
\<close>

subsection \<open>Configuration, helper results, effects\<close>

record bpf_config =
  audit_mode :: u32
  fexit_mode :: u32
  enforce_mode :: u32
  learn_mode :: u32
  shadow_cfi :: u32
  system_wide :: u32
  cgroup_filter :: u32

record hook_ctx =
  pid_tgid :: u64
  cgroup_id :: u64
  regs_ip :: "u64 option"
  stack_ret :: int
  stack_buf :: "u64 \<times> u64 \<times> u64 \<times> u64"
  ktime_ns :: u64
  ringbuf_reserved :: bool

datatype printk =
    PK_null_regs u32 u32
  | PK_unknown_vma u32 u32 u64
  | PK_no_policy u32 u32 u32
  | PK_vio_offset u32 u32 u64
  | PK_nr_mismatch u32 u32 u64
  | PK_bad_caller u32 u64
  | PK_stack_walk u32 u32 int
  | PK_vm_writev u32
  | PK_seccomp u32

record enf_state =
  audit_ringbuf :: "audit_event list"
  signals :: "u32 list"
  trace_pipe :: "printk list"

definition ctx_tgid :: "hook_ctx \<Rightarrow> u32" where
  "ctx_tgid c = ucast (drop_bit 32 (pid_tgid c))"

definition ctx_tid :: "hook_ctx \<Rightarrow> u32" where
  "ctx_tid c = ucast (pid_tgid c)"

definition bpf_printk :: "printk \<Rightarrow> enf_state \<Rightarrow> enf_state" where
  "bpf_printk p st = st\<lparr>trace_pipe := trace_pipe st @ [p]\<rparr>"

definition bpf_send_signal :: "u32 \<Rightarrow> enf_state \<Rightarrow> enf_state" where
  "bpf_send_signal n st = st\<lparr>signals := signals st @ [n]\<rparr>"

subsection \<open>Helpers\<close>

definition emit_audit ::
  "hook_ctx \<Rightarrow> u32 \<Rightarrow> u32 \<Rightarrow> u64 \<Rightarrow> u64 \<Rightarrow> u32 \<Rightarrow> u32 \<Rightarrow> u8 \<Rightarrow> enf_state \<Rightarrow> enf_state" where
  "emit_audit c tgid tid rip off mod_id nr action st =
     (if ringbuf_reserved c
      then st\<lparr>audit_ringbuf := audit_ringbuf st @
             [\<lparr>timestamp_ns = ktime_ns c, ev_tgid = tgid, ev_tid = tid, syscall_rip = rip,
               ev_offset = off, ev_module_id = mod_id, ev_syscall_nr = nr, ev_action = action\<rparr>]\<rparr>
      else st)"

definition deny_action ::
  "bpf_config \<Rightarrow> hook_ctx \<Rightarrow> u32 \<Rightarrow> u32 \<Rightarrow> u64 \<Rightarrow> u64 \<Rightarrow> u32 \<Rightarrow> u32 \<Rightarrow> u8 \<Rightarrow> enf_state \<Rightarrow> enf_state" where
  "deny_action g c tgid tid rip off mod_id nr event_type st =
     (let st = emit_audit c tgid tid rip off mod_id nr event_type st in
      if enforce_mode g = ENFORCE_TERM then bpf_send_signal 15 st
      else if enforce_mode g = ENFORCE_KILL then bpf_send_signal 9 st
      else st)"

subsection \<open>The shared check\<close>

definition sentinel_check ::
  "bpf_config \<Rightarrow> map_view \<Rightarrow> hook_ctx \<Rightarrow> u32 \<Rightarrow> enf_state \<Rightarrow> enf_state" where
  "sentinel_check g m c nr st =
     (let tgid = ctx_tgid c; tid = ctx_tid c in
      case target_pid_map m tgid of
        None \<Rightarrow>
          if system_wide g = 0 then st
          else (case fallback_policy m nr of
                  Some _ \<Rightarrow> st
                | None \<Rightarrow> deny_action g c tgid tid 0 0 0 nr EVENT_BLOCK st)
      | Some _ \<Rightarrow>
          if cgroup_filter g \<noteq> 0 \<and> cgroup_map m (cgroup_id c) = None then st
          else
          (case regs_ip c of
             None \<Rightarrow> deny_action g c tgid tid 0 0 0 nr EVENT_BLOCK (bpf_printk (PK_null_regs tid nr) st)
           | Some rip \<Rightarrow>
             (let syscall_site = rip - 2 in
              case vma_map m \<lparr>prefixlen = 64, key_addr = bswap64 syscall_site\<rparr> of
                None \<Rightarrow> deny_action g c tgid tid syscall_site 0 0 nr EVENT_BLOCK
                          (bpf_printk (PK_unknown_vma tid nr syscall_site) st)
              | Some mdl \<Rightarrow>
                (let off = syscall_site - base_addr mdl in
                 case policy_registry m (module_id mdl) of
                   None \<Rightarrow> deny_action g c tgid tid syscall_site off (module_id mdl) nr EVENT_BLOCK
                             (bpf_printk (PK_no_policy tid nr (module_id mdl)) st)
                 | Some policy_map \<Rightarrow>
                   (case inner_policy m policy_map off of
                      None \<Rightarrow> deny_action g c tgid tid syscall_site off (module_id mdl) nr EVENT_BLOCK
                                (bpf_printk (PK_vio_offset tid nr off) st)
                    | Some policy_val \<Rightarrow>
                      if policy_val AND POLICY_FLAG_CHECK_NR \<noteq> 0 \<and>
                         ucast (policy_val AND 0xFFFFFFFF) \<noteq> nr
                      then deny_action g c tgid tid syscall_site off (module_id mdl) nr EVENT_NR_MISMATCH
                             (bpf_printk (PK_nr_mismatch tid nr off) st)
                      else
                      (case cfi_policy m off of
                         Some rng \<Rightarrow>
                           if stack_ret c \<ge> 16 then
                             (let caller_rip = fst (snd (stack_buf c));
                                  caller_offset = caller_rip - base_addr mdl in
                              if cfi_start rng \<le> caller_offset \<and> caller_offset \<le> cfi_end rng then
                                (if audit_mode g \<noteq> 0
                                 then emit_audit c tgid tid syscall_site off (module_id mdl) nr EVENT_CFI_OK st
                                 else st)
                              else deny_action g c tgid tid syscall_site off (module_id mdl) nr EVENT_CFI_FAIL
                                     (bpf_printk (PK_bad_caller tid caller_offset) st))
                           else deny_action g c tgid tid syscall_site off (module_id mdl) nr EVENT_CFI_FAIL
                                  (bpf_printk (PK_stack_walk tid nr (stack_ret c)) st)
                       | None \<Rightarrow>
                           if audit_mode g \<noteq> 0
                           then emit_audit c tgid tid syscall_site off (module_id mdl) nr EVENT_ALLOW st
                           else st))))))"

subsection \<open>The hook programs\<close>

type_synonym hook_prog = "bpf_config \<Rightarrow> map_view \<Rightarrow> hook_ctx \<Rightarrow> enf_state \<Rightarrow> enf_state"

definition sentinel_write_check :: hook_prog where
  "sentinel_write_check g m c st = sentinel_check g m c 1 st"

definition sentinel_read_check :: hook_prog where
  "sentinel_read_check g m c st = sentinel_check g m c 0 st"

definition sentinel_openat_check :: hook_prog where
  "sentinel_openat_check g m c st = sentinel_check g m c 257 st"

definition sentinel_execve_check :: hook_prog where
  "sentinel_execve_check g m c st = sentinel_check g m c 59 st"

definition sentinel_mmap_check :: hook_prog where
  "sentinel_mmap_check g m c st = sentinel_check g m c 9 st"

definition sentinel_mprotect_check :: hook_prog where
  "sentinel_mprotect_check g m c st = sentinel_check g m c 10 st"

definition sentinel_connect_check :: hook_prog where
  "sentinel_connect_check g m c st = sentinel_check g m c 42 st"

definition sentinel_memfd_create_check :: hook_prog where
  "sentinel_memfd_create_check g m c st = sentinel_check g m c 319 st"

definition sentinel_process_vm_writev_check :: hook_prog where
  "sentinel_process_vm_writev_check g m c st =
     (case target_pid_map m (ctx_tgid c) of
        None \<Rightarrow> st
      | Some _ \<Rightarrow> deny_action g c (ctx_tgid c) (ctx_tid c) 0 0 0 311 EVENT_BLOCK
                   (bpf_printk (PK_vm_writev (ctx_tid c)) st))"

definition sentinel_prctl_check :: hook_prog where
  "sentinel_prctl_check g m c st = sentinel_check g m c 157 st"

definition sentinel_sendmsg_check :: hook_prog where
  "sentinel_sendmsg_check g m c st = sentinel_check g m c 46 st"

definition sentinel_dup2_check :: hook_prog where
  "sentinel_dup2_check g m c st = sentinel_check g m c 33 st"

definition sentinel_close_check :: hook_prog where
  "sentinel_close_check g m c st = sentinel_check g m c 3 st"

definition sentinel_ioctl_check :: hook_prog where
  "sentinel_ioctl_check g m c st = sentinel_check g m c 16 st"

definition sentinel_seccomp_check :: hook_prog where
  "sentinel_seccomp_check g m c st =
     (case target_pid_map m (ctx_tgid c) of
        None \<Rightarrow> st
      | Some _ \<Rightarrow> deny_action g c (ctx_tgid c) (ctx_tid c) 0 0 0 317 EVENT_BLOCK
                   (bpf_printk (PK_seccomp (ctx_tid c)) st))"

text \<open>The attached programs, by the system call whose entry point they hook.\<close>

definition attached_hooks :: "(string \<times> hook_prog) list" where
  "attached_hooks =
     [(''write'', sentinel_write_check), (''read'', sentinel_read_check),
      (''openat'', sentinel_openat_check), (''execve'', sentinel_execve_check),
      (''mmap'', sentinel_mmap_check), (''mprotect'', sentinel_mprotect_check),
      (''connect'', sentinel_connect_check), (''memfd_create'', sentinel_memfd_create_check),
      (''process_vm_writev'', sentinel_process_vm_writev_check),
      (''prctl'', sentinel_prctl_check), (''sendmsg'', sentinel_sendmsg_check),
      (''dup2'', sentinel_dup2_check), (''close'', sentinel_close_check),
      (''ioctl'', sentinel_ioctl_check), (''seccomp'', sentinel_seccomp_check)]"

text \<open>Entering a system call runs the program attached to it, if there is one.\<close>

definition run_hook :: "string \<Rightarrow> hook_prog" where
  "run_hook name g m c st =
     (case map_of attached_hooks name of None \<Rightarrow> st | Some prog \<Rightarrow> prog g m c st)"

subsection \<open>Specification: what a policy allows\<close>

text \<open>
  A task is in scope of per-binary enforcement when its thread group is tracked and, under cgroup
  filtering, its cgroup is listed. A system call is allowed when its instruction lies in a known
  module, the module's policy lists the instruction's offset, the number is the one bound to the
  offset (or none is bound) and, where the offset has a caller range, the stack walk found a
  caller inside it.
\<close>

definition in_scope :: "bpf_config \<Rightarrow> map_view \<Rightarrow> hook_ctx \<Rightarrow> bool" where
  "in_scope g m c \<longleftrightarrow> target_pid_map m (ctx_tgid c) \<noteq> None \<and>
     (cgroup_filter g = 0 \<or> cgroup_map m (cgroup_id c) \<noteq> None)"

definition nr_permitted :: "u64 \<Rightarrow> u32 \<Rightarrow> bool" where
  "nr_permitted val nr \<longleftrightarrow> (bit val 32 \<longrightarrow> ucast val = nr)"

definition caller_permitted :: "map_view \<Rightarrow> hook_ctx \<Rightarrow> u64 \<Rightarrow> u64 \<Rightarrow> bool" where
  "caller_permitted m c base off \<longleftrightarrow>
     (\<forall>rng. cfi_policy m off = Some rng \<longrightarrow>
        stack_ret c \<ge> 16 \<and> fst (snd (stack_buf c)) - base \<in> {cfi_start rng..cfi_end rng})"

definition site_allowed :: "map_view \<Rightarrow> hook_ctx \<Rightarrow> u32 \<Rightarrow> bool" where
  "site_allowed m c nr \<longleftrightarrow>
     (\<exists>rip mdl h val. regs_ip c = Some rip \<and>
        vma_map m \<lparr>prefixlen = 64, key_addr = bswap64 (rip - 2)\<rparr> = Some mdl \<and>
        policy_registry m (module_id mdl) = Some h \<and>
        inner_policy m h (rip - 2 - base_addr mdl) = Some val \<and>
        nr_permitted val nr \<and>
        caller_permitted m c (base_addr mdl) (rip - 2 - base_addr mdl))"

definition hook_allowed :: "string \<Rightarrow> map_view \<Rightarrow> hook_ctx \<Rightarrow> bool" where
  "hook_allowed name m c \<longleftrightarrow>
     (case map_of [(''write'', 1), (''read'', 0), (''openat'', 257), (''execve'', 59), (''mmap'', 9),
         (''mprotect'', 10), (''connect'', 42), (''memfd_create'', 319), (''prctl'', 157),
         (''sendmsg'', 46), (''dup2'', 33), (''close'', 3), (''ioctl'', 16)] name of
        Some nr \<Rightarrow> site_allowed m c nr
      | None \<Rightarrow> name \<noteq> ''process_vm_writev'' \<and> name \<noteq> ''seccomp'')"

definition deny_signals :: "bpf_config \<Rightarrow> u32 list" where
  "deny_signals g = (if enforce_mode g = ENFORCE_TERM then [15]
     else if enforce_mode g = ENFORCE_KILL then [9] else [])"

subsection \<open>Effects of the helpers\<close>

lemma check_flag_bit: "val AND POLICY_FLAG_CHECK_NR \<noteq> 0 \<longleftrightarrow> bit val 32"
  by (simp add: POLICY_FLAG_CHECK_NR_def bit_iff_and_push_bit_not_eq_0)

lemma low_word: "ucast (val AND 0xFFFFFFFF) = (ucast val :: u32)" for val :: u64
proof -
  have "val AND 0xFFFFFFFF = take_bit 32 val"
    by (simp add: take_bit_eq_mask mask_eq_exp_minus_1)
  then show ?thesis by (auto simp: bit_eq_iff bit_simps)
qed

named_theorems effect_simps \<open>what each helper appends to the enforcer's effects\<close>

lemma emit_audit_effects [effect_simps]:
  "signals (emit_audit c tgid tid rip off mid nr a st) = signals st"
  "trace_pipe (emit_audit c tgid tid rip off mid nr a st) = trace_pipe st"
  by (simp_all add: emit_audit_def)

lemma deny_action_effects [effect_simps]:
  "signals (deny_action g c tgid tid rip off mid nr a st) = signals st @ deny_signals g"
  "trace_pipe (deny_action g c tgid tid rip off mid nr a st) = trace_pipe st"
  "audit_ringbuf (deny_action g c tgid tid rip off mid nr a st) =
     audit_ringbuf (emit_audit c tgid tid rip off mid nr a st)"
  by (simp_all add: deny_action_def deny_signals_def bpf_send_signal_def effect_simps Let_def)

lemma bpf_printk_effects [effect_simps]:
  "signals (bpf_printk p st) = signals st"
  "audit_ringbuf (bpf_printk p st) = audit_ringbuf st"
  "trace_pipe (bpf_printk p st) = trace_pipe st @ [p]"
  by (simp_all add: bpf_printk_def)

subsection \<open>Correctness of the check\<close>

text \<open>
  The two ways a check of a task in scope can end: a denial (one trace line, then the deny action
  with a denial event) or a grant (at most an audit record).
\<close>

definition denies :: "bpf_config \<Rightarrow> hook_ctx \<Rightarrow> u32 \<Rightarrow> enf_state \<Rightarrow> enf_state \<Rightarrow> bool" where
  "denies g c nr st st' \<longleftrightarrow> (\<exists>rip off mid a p. a \<in> {EVENT_BLOCK, EVENT_NR_MISMATCH, EVENT_CFI_FAIL} \<and>
     st' = deny_action g c (ctx_tgid c) (ctx_tid c) rip off mid nr a (bpf_printk p st))"

definition grants :: "bpf_config \<Rightarrow> hook_ctx \<Rightarrow> u32 \<Rightarrow> enf_state \<Rightarrow> enf_state \<Rightarrow> bool" where
  "grants g c nr st st' \<longleftrightarrow> (\<exists>rip off mid a. a \<in> {EVENT_ALLOW, EVENT_CFI_OK} \<and>
     st' = (if audit_mode g \<noteq> 0 then emit_audit c (ctx_tgid c) (ctx_tid c) rip off mid nr a st else st))"

lemma denies_deny_action:
  "a \<in> {EVENT_BLOCK, EVENT_NR_MISMATCH, EVENT_CFI_FAIL} \<Longrightarrow>
   denies g c nr st (deny_action g c (ctx_tgid c) (ctx_tid c) rip off mid nr a (bpf_printk p st))"
  unfolding denies_def by blast

lemma grants_emit:
  "a \<in> {EVENT_ALLOW, EVENT_CFI_OK} \<Longrightarrow> audit_mode g \<noteq> 0 \<Longrightarrow>
   grants g c nr st (emit_audit c (ctx_tgid c) (ctx_tid c) rip off mid nr a st)"
  unfolding grants_def by auto

lemma grants_silent: "audit_mode g = 0 \<Longrightarrow> grants g c nr st st"
  unfolding grants_def by auto

lemma sentinel_check_outcome:
  assumes "in_scope g m c"
  shows "(if site_allowed m c nr then grants else denies) g c nr st (sentinel_check g m c nr st)"
proof -
  from assms obtain t where tgt: "target_pid_map m (ctx_tgid c) = Some t"
    and cg: "\<not> (cgroup_filter g \<noteq> 0 \<and> cgroup_map m (cgroup_id c) = None)"
    by (auto simp: in_scope_def)
  note outcome = denies_deny_action grants_emit grants_silent
  note check = sentinel_check_def [of g m c nr st, unfolded Let_def check_flag_bit low_word]
  note allowed = site_allowed_def nr_permitted_def caller_permitted_def
  consider (regs) "regs_ip c = None"
    | (vma) rip where "regs_ip c = Some rip"
        "vma_map m \<lparr>prefixlen = 64, key_addr = bswap64 (rip - 2)\<rparr> = None"
    | (registry) rip mdl where "regs_ip c = Some rip"
        "vma_map m \<lparr>prefixlen = 64, key_addr = bswap64 (rip - 2)\<rparr> = Some mdl"
        "policy_registry m (module_id mdl) = None"
    | (offset) rip mdl h where "regs_ip c = Some rip"
        "vma_map m \<lparr>prefixlen = 64, key_addr = bswap64 (rip - 2)\<rparr> = Some mdl"
        "policy_registry m (module_id mdl) = Some h"
        "inner_policy m h (rip - 2 - base_addr mdl) = None"
    | (listed) rip mdl h val where "regs_ip c = Some rip"
        "vma_map m \<lparr>prefixlen = 64, key_addr = bswap64 (rip - 2)\<rparr> = Some mdl"
        "policy_registry m (module_id mdl) = Some h"
        "inner_policy m h (rip - 2 - base_addr mdl) = Some val"
    by (metis not_None_eq)
  then show ?thesis
  proof cases
    case listed
    then show ?thesis
      by (cases "cfi_policy m (rip - 2 - base_addr mdl)") (auto simp: check allowed tgt cg outcome)
  qed (simp_all add: check allowed tgt cg outcome)
qed

lemma sentinel_check_signals:
  assumes "in_scope g m c"
  shows "signals (sentinel_check g m c nr st) =
    signals st @ (if site_allowed m c nr then [] else deny_signals g)"
  using sentinel_check_outcome [OF assms, of nr st]
  by (auto simp: grants_def denies_def effect_simps split: if_splits)

text \<open>
  The event a call leaves behind: nothing for an allowed call unless auditing is on, otherwise one
  record that carries the caller's identity, the resolved site and the outcome.
\<close>

definition one_event :: "hook_ctx \<Rightarrow> u32 \<Rightarrow> u8 set \<Rightarrow> audit_event list \<Rightarrow> bool" where
  "one_event c nr actions es \<longleftrightarrow>
     (if ringbuf_reserved c
      then \<exists>e. es = [e] \<and> ev_action e \<in> actions \<and> ev_tgid e = ctx_tgid c \<and> ev_tid e = ctx_tid c \<and>
             ev_syscall_nr e = nr \<and> timestamp_ns e = ktime_ns c
      else es = [])"

lemma one_event_emit:
  "a \<in> actions \<Longrightarrow> \<exists>es. audit_ringbuf (emit_audit c (ctx_tgid c) (ctx_tid c) rip off mid nr a st) =
     audit_ringbuf st @ es \<and> one_event c nr actions es"
  by (simp add: emit_audit_def one_event_def)

lemmas checked_hook_defs = sentinel_write_check_def sentinel_read_check_def
  sentinel_openat_check_def sentinel_execve_check_def sentinel_mmap_check_def
  sentinel_mprotect_check_def sentinel_connect_check_def sentinel_memfd_create_check_def
  sentinel_prctl_check_def sentinel_sendmsg_check_def sentinel_dup2_check_def
  sentinel_close_check_def sentinel_ioctl_check_def

lemmas blocking_hook_defs = sentinel_process_vm_writev_check_def sentinel_seccomp_check_def

lemma blocking_hook_signals:
  assumes "target_pid_map m (ctx_tgid c) \<noteq> None"
  shows "signals (sentinel_process_vm_writev_check g m c st) = signals st @ deny_signals g"
    and "signals (sentinel_seccomp_check g m c st) = signals st @ deny_signals g"
  using assms by (auto simp: blocking_hook_defs effect_simps)

lemma run_hook_signals:
  assumes "in_scope g m c"
  shows "signals (run_hook name g m c st) =
    signals st @ (if hook_allowed name m c then [] else deny_signals g)"
proof -
  have "target_pid_map m (ctx_tgid c) \<noteq> None" using assms by (simp add: in_scope_def)
  then show ?thesis
    by (simp add: run_hook_def attached_hooks_def hook_allowed_def checked_hook_defs
        sentinel_check_signals [OF assms] blocking_hook_signals)
qed

lemma run_hook_untracked:
  assumes "target_pid_map m (ctx_tgid c) = None" and "system_wide g = 0"
  shows "run_hook name g m c st = st"
proof -
  have "sentinel_check g m c nr st = st" for nr
    using assms by (simp add: sentinel_check_def)
  then show ?thesis
    using assms
    by (simp add: run_hook_def attached_hooks_def checked_hook_defs blocking_hook_defs)
qed

lemma deny_signals_KILL: "enforce_mode g = ENFORCE_KILL \<Longrightarrow> deny_signals g = [9]"
  by (simp add: deny_signals_def enforce_defs)

lemma deny_signals_PERMISSIVE: "enforce_mode g = ENFORCE_PERMISSIVE \<Longrightarrow> deny_signals g = []"
  by (simp add: deny_signals_def enforce_defs)

subsection \<open>A monitored process as a state machine\<close>

text \<open>
  A process enters system calls one after the other; each entry runs the attached program. The
  kernel takes the process down when the program has sent it \<open>SIGKILL\<close>. The history records the
  system calls entered, oldest first.
\<close>

record proc =
  p_alive :: bool
  p_history :: "(string \<times> hook_ctx) list"
  p_eff :: enf_state

definition proc_init :: "enf_state \<Rightarrow> proc" where
  "proc_init st = \<lparr>p_alive = True, p_history = [], p_eff = st\<rparr>"

inductive proc_step :: "bpf_config \<Rightarrow> map_view \<Rightarrow> proc \<Rightarrow> proc \<Rightarrow> bool" for g m where
  enter: "p_alive p \<Longrightarrow> in_scope g m c \<Longrightarrow> st' = run_hook name g m c (p_eff p) \<Longrightarrow>
    proc_step g m p \<lparr>p_alive = 9 \<notin> set (signals st'), p_history = p_history p @ [(name, c)],
      p_eff = st'\<rparr>"

inductive_cases proc_stepE: "proc_step g m p q"

inductive proc_reach :: "bpf_config \<Rightarrow> map_view \<Rightarrow> proc \<Rightarrow> bool" for g m where
  start: "signals st = [] \<Longrightarrow> proc_reach g m (proc_init st)"
| step: "proc_reach g m p \<Longrightarrow> proc_step g m p q \<Longrightarrow> proc_reach g m q"

definition proc_inv :: "map_view \<Rightarrow> proc \<Rightarrow> bool" where
  "proc_inv m p \<longleftrightarrow>
     (if p_alive p
      then signals (p_eff p) = [] \<and> (\<forall>(name, c) \<in> set (p_history p). hook_allowed name m c)
      else p_history p \<noteq> [] \<and> (\<forall>(name, c) \<in> set (butlast (p_history p)). hook_allowed name m c) \<and>
           \<not> hook_allowed (fst (last (p_history p))) m (snd (last (p_history p))))"

lemma proc_step_inv:
  assumes "proc_step g m p q" and "proc_inv m p" and "enforce_mode g = ENFORCE_KILL"
  shows "proc_inv m q"
proof -
  from assms(1) obtain c name where p: "p_alive p" "in_scope g m c" and
    q: "q = \<lparr>p_alive = 9 \<notin> set (signals (run_hook name g m c (p_eff p))),
      p_history = p_history p @ [(name, c)], p_eff = run_hook name g m c (p_eff p)\<rparr>"
    by (auto elim: proc_stepE)
  have "signals (run_hook name g m c (p_eff p)) = (if hook_allowed name m c then [] else [9])"
    using p assms(2,3) by (simp add: proc_inv_def run_hook_signals deny_signals_KILL)
  with p q assms(2) show ?thesis by (auto simp: proc_inv_def)
qed

lemma proc_reach_inv:
  assumes "proc_reach g m p" and "enforce_mode g = ENFORCE_KILL"
  shows "proc_inv m p"
  using assms(1)
proof induction
  case (start st)
  then show ?case by (simp add: proc_inv_def proc_init_def)
next
  case (step p q)
  then show ?case using assms(2) by (blast intro: proc_step_inv)
qed

subsection \<open>A concrete scenario\<close>

text \<open>
  Thread group 100 is tracked; its binary is loaded at \<open>0x400000\<close> and its policy binds offset
  \<open>0x1000\<close> to \<open>write\<close> (number 1).
\<close>

definition ex_cfg :: bpf_config where
  "ex_cfg = \<lparr>audit_mode = 0, fexit_mode = 0, enforce_mode = 0, learn_mode = 0, shadow_cfi = 0,
     system_wide = 0, cgroup_filter = 0\<rparr>"

definition ex_maps :: map_view where
  "ex_maps = \<lparr>target_pid_map = [100 \<mapsto> 1], cgroup_map = Map.empty, fallback_policy = Map.empty,
     vma_map = (\<lambda>_. Some \<lparr>module_id = 1, base_addr = 0x400000\<rparr>), policy_registry = [1 \<mapsto> 5],
     inner_policy = (\<lambda>_. [0x1000 \<mapsto> 0x100000001]), cfi_policy = Map.empty\<rparr>"

definition ex_ctx :: "u64 \<Rightarrow> hook_ctx" where
  "ex_ctx rip = \<lparr>pid_tgid = 0x6400000064, cgroup_id = 7, regs_ip = Some rip, stack_ret = 0,
     stack_buf = (0, 0, 0, 0), ktime_ns = 9, ringbuf_reserved = True\<rparr>"

definition ex_state :: enf_state where
  "ex_state = \<lparr>audit_ringbuf = [], signals = [], trace_pipe = []\<rparr>"

lemma ex_fields [simp]:
  "signals ex_state = []" "audit_ringbuf ex_state = []" "ringbuf_reserved (ex_ctx rip)"
  by (simp_all add: ex_state_def ex_ctx_def)

lemma ex_tgid: "ctx_tgid (ex_ctx rip) = 100"
  by (simp add: ctx_tgid_def ex_ctx_def)

lemma ex_in_scope: "in_scope ex_cfg ex_maps (ex_ctx rip)"
  by (simp add: in_scope_def ex_tgid) (simp add: ex_cfg_def ex_maps_def)

lemma ex_site_allowed: "site_allowed ex_maps (ex_ctx 0x401002) nr \<longleftrightarrow> nr = 1"
  by (auto simp: site_allowed_def ex_maps_def ex_ctx_def nr_permitted_def caller_permitted_def
      bit_iff_odd)

lemma ex_kill: "enforce_mode ex_cfg = ENFORCE_KILL"
  by (simp add: ex_cfg_def ENFORCE_KILL_def)

lemma ex_write_conforms: "hook_allowed ''write'' ex_maps (ex_ctx 0x401002)"
  by (simp add: hook_allowed_def ex_site_allowed)

subsection \<open>Properties\<close>

text \<open>
  C2: For a task in scope, the check sends the configured signal exactly when the policy does not
  allow the system call: the call's instruction must lie in a registered module at a listed
  offset, with the bound number and, where a caller range is set, a caller inside it.
\<close>

theorem enforcement_complete:
  assumes "in_scope g m c"
  shows "signals (sentinel_check g m c nr st) =
    signals st @ (if site_allowed m c nr then [] else deny_signals g)"
  using assms by (rule sentinel_check_signals)

theorem enforcement_complete_witness:
  "signals (sentinel_check ex_cfg ex_maps (ex_ctx 0x401002) 1 ex_state) = [] \<and>
   signals (sentinel_check ex_cfg ex_maps (ex_ctx 0x401002) 59 ex_state) = [9]"
  using enforcement_complete [OF ex_in_scope [of "0x401002"], where nr = 1 and st = ex_state]
    enforcement_complete [OF ex_in_scope [of "0x401002"], where nr = 59 and st = ex_state]
  by (simp add: ex_site_allowed deny_signals_KILL [OF ex_kill])

text \<open>
  C3: In kill mode, in every state a monitored process can reach, a live process has entered only
  system calls that their hooks allow, and a dead one was killed at the first entry that its hook
  does not allow.
\<close>

theorem live_process_conforms:
  assumes "proc_reach g m p" and "enforce_mode g = ENFORCE_KILL"
  shows "if p_alive p then \<forall>(name, c) \<in> set (p_history p). hook_allowed name m c
    else \<exists>hs name c. p_history p = hs @ [(name, c)] \<and> \<not> hook_allowed name m c \<and>
      (\<forall>(n, d) \<in> set hs. hook_allowed n m d)"
proof -
  have inv: "proc_inv m p" using assms by (rule proc_reach_inv)
  then show ?thesis
    by (cases "p_history p" rule: rev_cases) (auto simp: proc_inv_def split: if_splits)
qed

theorem live_process_conforms_witness:
  "\<exists>p. proc_reach ex_cfg ex_maps p \<and> p_alive p \<and> p_history p = [(''write'', ex_ctx 0x401002)] \<and>
    hook_allowed ''write'' ex_maps (ex_ctx 0x401002)"
proof -
  let ?st = "run_hook ''write'' ex_cfg ex_maps (ex_ctx 0x401002) ex_state"
  let ?p = "\<lparr>p_alive = True, p_history = [(''write'', ex_ctx 0x401002)], p_eff = ?st\<rparr>"
  have "signals ?st = []"
    by (simp add: run_hook_signals ex_in_scope ex_write_conforms)
  then have "proc_step ex_cfg ex_maps (proc_init ex_state) ?p"
    using proc_step.enter [of "proc_init ex_state" ex_cfg ex_maps "ex_ctx 0x401002" ?st "''write''"]
    by (simp add: proc_init_def ex_in_scope)
  then have r: "proc_reach ex_cfg ex_maps ?p"
    by (intro proc_reach.step [OF proc_reach.start]) (simp_all add: ex_state_def)
  show ?thesis
    by (rule exI [of _ ?p]) (use r live_process_conforms [OF r ex_kill] in simp)
qed

text \<open>
  C17: Every check of a task in scope, in every enforcement mode, leaves at most one audit record:
  one that names the task and the system call with a denial outcome when the call is not allowed, one
  with an allowing outcome when it is and auditing is on, none otherwise; a full ring buffer loses
  the record.
\<close>

theorem one_audit_record:
  assumes "in_scope g m c"
  shows "\<exists>es. audit_ringbuf (sentinel_check g m c nr st) = audit_ringbuf st @ es \<and>
    (if \<not> site_allowed m c nr then one_event c nr {EVENT_BLOCK, EVENT_NR_MISMATCH, EVENT_CFI_FAIL} es
     else if audit_mode g \<noteq> 0 then one_event c nr {EVENT_ALLOW, EVENT_CFI_OK} es
     else es = [])"
proof (cases "site_allowed m c nr")
  case True
  then have "grants g c nr st (sentinel_check g m c nr st)"
    using sentinel_check_outcome [OF assms, of nr st] by simp
  with True show ?thesis
    by (cases "audit_mode g = 0") (auto simp: grants_def intro: one_event_emit)
next
  case False
  then have "denies g c nr st (sentinel_check g m c nr st)"
    using sentinel_check_outcome [OF assms, of nr st] by simp
  with False show ?thesis
    using one_event_emit [where st = "bpf_printk p st" for p]
    by (auto simp: denies_def effect_simps)
qed

theorem one_audit_record_witness:
  "length (audit_ringbuf (sentinel_check ex_cfg ex_maps (ex_ctx 0x401002) 59 ex_state)) = 1"
  using one_audit_record [OF ex_in_scope [of "0x401002"], where nr = 59 and st = ex_state]
  by (auto simp: ex_site_allowed one_event_def)

text \<open>
  The hot path: an allowed call of a task in scope has no effect at all when auditing is off,
  no trace line, no audit record, no signal.
\<close>

lemma allowed_call_silent:
  assumes "in_scope g m c" and "site_allowed m c nr" and "audit_mode g = 0"
  shows "sentinel_check g m c nr st = st"
  using sentinel_check_outcome [OF assms(1), of nr st] assms(2,3) by (simp add: grants_def)

text \<open>
  C31: \<open>process_vm_writev\<close> and \<open>seccomp\<close> are refused to every tracked process, whatever the
  policy, the cgroup filter and the registers say.
\<close>

theorem unconditional_blocks:
  assumes "target_pid_map m (ctx_tgid c) \<noteq> None" and "name \<in> {''process_vm_writev'', ''seccomp''}"
  shows "signals (run_hook name g m c st) = signals st @ deny_signals g"
  using assms(2) blocking_hook_signals [OF assms(1)]
  by (auto simp: run_hook_def attached_hooks_def)

theorem unconditional_blocks_witness:
  "signals (run_hook ''seccomp'' ex_cfg ex_maps (ex_ctx 0) ex_state) = [9]"
  using unconditional_blocks [of ex_maps "ex_ctx 0" "''seccomp''" ex_cfg ex_state] ex_in_scope [of 0]
  by (simp add: in_scope_def deny_signals_KILL [OF ex_kill])

text \<open>
  C32: Isolation: outside system-wide mode no hook has any effect on a process that is not tracked.
\<close>

theorem untracked_unaffected:
  assumes "target_pid_map m (ctx_tgid c) = None" and "system_wide g = 0"
  shows "run_hook name g m c st = st"
  using assms by (rule run_hook_untracked)

theorem untracked_unaffected_witness:
  "run_hook ''execve'' ex_cfg (ex_maps\<lparr>target_pid_map := Map.empty\<rparr>) (ex_ctx 0) ex_state = ex_state"
  by (rule untracked_unaffected) (simp_all add: ex_cfg_def)

text \<open>
  C33: Permissive mode never signals: no hook sends a signal to anyone, in scope or not.
\<close>

theorem permissive_never_signals:
  assumes "enforce_mode g = ENFORCE_PERMISSIVE"
  shows "signals (run_hook name g m c st) = signals st"
proof -
  note none = deny_signals_PERMISSIVE [OF assms]
  have "signals (sentinel_check g m c nr st) = signals st" for nr
    by (cases "in_scope g m c")
      (auto simp: sentinel_check_signals none in_scope_def sentinel_check_def Let_def effect_simps
        split: option.splits)
  then show ?thesis
    by (auto simp: run_hook_def attached_hooks_def checked_hook_defs blocking_hook_defs
        effect_simps none split: option.splits)
qed

theorem permissive_never_signals_witness:
  "signals (run_hook ''execve'' (ex_cfg\<lparr>enforce_mode := 1\<rparr>) ex_maps (ex_ctx 0) ex_state) = []"
  using permissive_never_signals [of "ex_cfg\<lparr>enforce_mode := 1\<rparr>" "''execve''" ex_maps "ex_ctx 0" ex_state]
  by (simp add: ENFORCE_PERMISSIVE_def ex_state_def)

text \<open>
  C39: The caller range of an offset is not tied to a module: for a call that the policy of its own
  module grants, whichever module that is, a range recorded under the offset alone decides. The call
  is refused when its caller lies outside, although without the range it would pass.
\<close>

theorem cfi_range_ignores_module:
  assumes "in_scope g m c" and "regs_ip c = Some rip" and "stack_ret c \<ge> 16"
    and "vma_map m \<lparr>prefixlen = 64, key_addr = bswap64 (rip - 2)\<rparr> = Some mdl"
    and "off = rip - 2 - base_addr mdl" and "cfi_policy m off = Some rng"
    and "m' = m\<lparr>cfi_policy := (cfi_policy m)(off := None)\<rparr>" and "site_allowed m' c nr"
  shows "signals (sentinel_check g m' c nr st) = signals st \<and>
    signals (sentinel_check g m c nr st) = signals st @
      (if fst (snd (stack_buf c)) - base_addr mdl \<in> {cfi_start rng..cfi_end rng} then [] else deny_signals g)"
proof
  have "in_scope g m' c" using assms(1,7) by (simp add: in_scope_def)
  from sentinel_check_signals [OF this, of nr st] assms(8)
  show "signals (sentinel_check g m' c nr st) = signals st" by simp
  have "site_allowed m c nr \<longleftrightarrow> fst (snd (stack_buf c)) - base_addr mdl \<in> {cfi_start rng..cfi_end rng}"
    using assms(2-4) assms(6,8) [unfolded assms(7), unfolded assms(5)]
    by (auto simp: site_allowed_def caller_permitted_def)
  then show "signals (sentinel_check g m c nr st) = signals st @
      (if fst (snd (stack_buf c)) - base_addr mdl \<in> {cfi_start rng..cfi_end rng} then [] else deny_signals g)"
    using sentinel_check_signals [OF assms(1), of nr st] by simp
qed

text \<open>
  The range is that of offset \<open>0x1000\<close> of the binary; the call is at that offset of a library,
  whose policy grants it.
\<close>

definition ex_lib_maps :: map_view where
  "ex_lib_maps = ex_maps\<lparr>vma_map := (\<lambda>_. Some \<lparr>module_id = 2, base_addr = 0x400000\<rparr>), policy_registry := [2 \<mapsto> 5]\<rparr>"

theorem cfi_range_ignores_module_witness:
  "signals (sentinel_check ex_cfg ex_lib_maps (ex_ctx 0x401002\<lparr>stack_ret := 32\<rparr>) 1 ex_state) = [] \<and>
   signals (sentinel_check ex_cfg (ex_lib_maps\<lparr>cfi_policy := [0x1000 \<mapsto> \<lparr>cfi_start = 0x10, cfi_end = 0x20\<rparr>]\<rparr>)
     (ex_ctx 0x401002\<lparr>stack_ret := 32\<rparr>) 1 ex_state) = [9]"
proof -
  let ?m = "ex_lib_maps\<lparr>cfi_policy := [0x1000 \<mapsto> \<lparr>cfi_start = 0x10, cfi_end = 0x20\<rparr>]\<rparr>"
    and ?c = "ex_ctx 0x401002\<lparr>stack_ret := 32\<rparr>"
  have scope: "in_scope ex_cfg ?m ?c"
    using ex_in_scope [of "0x401002"] by (simp add: in_scope_def ex_lib_maps_def ctx_tgid_def)
  have ctx: "regs_ip ?c = Some 0x401002" "stack_ret ?c \<ge> 16" "fst (snd (stack_buf ?c)) = 0"
    by (simp_all add: ex_ctx_def)
  have maps: "vma_map ?m k = Some \<lparr>module_id = 2, base_addr = 0x400000\<rparr>"
    "ex_lib_maps = ?m\<lparr>cfi_policy := (cfi_policy ?m)(0x1000 := None)\<rparr>" for k
    by (simp_all add: ex_lib_maps_def ex_maps_def)
  have allowed: "site_allowed ex_lib_maps ?c 1"
    by (simp add: site_allowed_def ctx(1)) (simp add: ex_lib_maps_def ex_maps_def nr_permitted_def caller_permitted_def)
  from cfi_range_ignores_module [OF scope ctx(1,2) maps(1) _ _ maps(2) allowed, of "\<lparr>cfi_start = 0x10, cfi_end = 0x20\<rparr>"]
  show ?thesis using ctx(3) by (simp add: deny_signals_KILL [OF ex_kill])
qed

text \<open>
  C34: System-wide mode: a process that is not tracked is refused exactly the checked system calls
  outside the fallback list, while \<open>process_vm_writev\<close> and \<open>seccomp\<close>, which are refused to every
  tracked process, have no effect on it.
\<close>

theorem system_wide_baseline:
  assumes "target_pid_map m (ctx_tgid c) = None" and "system_wide g \<noteq> 0"
  shows "signals (sentinel_check g m c nr st) =
      signals st @ (if fallback_policy m nr = None then deny_signals g else []) \<and>
    run_hook ''process_vm_writev'' g m c st = st \<and> run_hook ''seccomp'' g m c st = st"
proof -
  have "signals (sentinel_check g m c nr st) =
      signals st @ (if fallback_policy m nr = None then deny_signals g else [])"
    using assms by (cases "fallback_policy m nr") (simp_all add: sentinel_check_def Let_def effect_simps)
  moreover have "run_hook ''process_vm_writev'' g m c st = st" "run_hook ''seccomp'' g m c st = st"
    using assms(1) by (simp_all add: run_hook_def attached_hooks_def blocking_hook_defs)
  ultimately show ?thesis by simp
qed

theorem system_wide_baseline_witness:
  "signals (sentinel_check (ex_cfg\<lparr>system_wide := 1\<rparr>)
     (ex_maps\<lparr>target_pid_map := Map.empty, fallback_policy := [0 \<mapsto> 1]\<rparr>) (ex_ctx 0) 59 ex_state) = [9]"
  using system_wide_baseline [of "ex_maps\<lparr>target_pid_map := Map.empty, fallback_policy := [0 \<mapsto> 1]\<rparr>"
      "ex_ctx 0" "ex_cfg\<lparr>system_wide := 1\<rparr>" 59 ex_state]
    deny_signals_KILL [of "ex_cfg\<lparr>system_wide := 1\<rparr>"]
  by (simp add: ex_kill)

text \<open>
  Only the fifteen listed entry points are hooked: whatever the configuration, a tracked process
  enters \<open>ptrace\<close>, \<open>fork\<close>, \<open>clone\<close>, \<open>bpf\<close>, \<open>unshare\<close>, \<open>setns\<close> or \<open>execveat\<close> with no check.
\<close>

lemma unhooked_entries_pass:
  assumes "name \<in> {''ptrace'', ''fork'', ''vfork'', ''clone'', ''bpf'', ''unshare'', ''setns'', ''execveat''}"
  shows "run_hook name g m c st = st"
proof -
  have "map_of attached_hooks name = None"
    using assms by (simp add: attached_hooks_def) (elim disjE; simp)
  then show ?thesis by (simp add: run_hook_def)
qed

end
