(* ===== verification/LoaderElf.thy ===== *)
theory LoaderElf
  imports ElfView CStr
begin

text \<open>
  The ELF readers of \<open>src/runtime/loader.c\<close>: the policy and caller tables of the monitored binary
  and the search for \<open>syscall\<close> opcodes in libraries. Output arrays are lists, whose length is the
  returned count. \<open>None\<close> is a fault of the process: a null or out-of-bounds read or a division by
  zero.
\<close>

subsection \<open>The policy table of the binary\<close>

definition MAX_POLICY_ENTRIES :: nat where "MAX_POLICY_ENTRIES = 4096"

fun elf_load_base :: "gelf_phdr option list \<Rightarrow> u64" where
  "elf_load_base [] = 0"
| "elf_load_base (None # ps) = elf_load_base ps"
| "elf_load_base (Some ph # ps) = (if p_type ph = PT_LOAD then p_vaddr ph else elf_load_base ps)"

fun sentinel_scan :: "elf_scn list \<Rightarrow> elf_data option \<times> u64 \<Rightarrow> elf_data option \<times> u64" where
  "sentinel_scan [] acc = acc"
| "sentinel_scan (sc # scs) (sentinel_data, text_addr) =
     sentinel_scan scs
       (case sh_name sc of
          None \<Rightarrow> (sentinel_data, text_addr)
        | Some name \<Rightarrow>
            ((if name = ''.sentinel'' then scn_data sc else sentinel_data),
             (if name = ''.text'' then sh_addr sc else text_addr)))"

definition decoded_nr :: "policy_entry \<Rightarrow> int" where
  "decoded_nr pe = (if sint (syscall_nr pe) > 0 then sint (syscall_nr pe) - 1 else - 1)"

fun parse_entries :: "nat \<Rightarrow> policy_entry list \<Rightarrow> (u64 \<times> int) list" where
  "parse_entries room [] = []"
| "parse_entries room (pe # pes) =
     (if room = 0 then []
      else if site_addr pe = 0 then parse_entries room pes
      else (site_addr pe, decoded_nr pe) # parse_entries (room - 1) pes)"

text \<open>
  The returned count, the filled slots of \<open>offsets\<close> and \<open>syscall_nrs\<close>, and what was stored through
  \<open>text_base_out\<close> and \<open>elf_load_base_out\<close>.
\<close>

record parsed_policy =
  pp_count :: int
  pp_entries :: "(u64 \<times> int) list"
  pp_text_base :: "u64 option"
  pp_load_base :: "u64 option"

definition parse_sentinel_section ::
  "(string \<Rightarrow> elf_open) \<Rightarrow> string \<Rightarrow> nat \<Rightarrow> parsed_policy option" where
  "parse_sentinel_section opened binary_path max_entries =
     (case opened binary_path of
        ElfVersionNone \<Rightarrow>
          Some \<lparr>pp_count = - 1, pp_entries = [], pp_text_base = None, pp_load_base = None\<rparr>
      | OpenFailed \<Rightarrow>
          Some \<lparr>pp_count = - 1, pp_entries = [], pp_text_base = None, pp_load_base = None\<rparr>
      | BeginFailed \<Rightarrow>
          Some \<lparr>pp_count = 0, pp_entries = [], pp_text_base = None, pp_load_base = None\<rparr>
      | ElfOpened e \<Rightarrow>
          (let load_base = elf_load_base (e_phdrs e);
               nothing = \<lparr>pp_count = 0, pp_entries = [], pp_text_base = None,
                          pp_load_base = Some load_base\<rparr> in
           if \<not> e_shstrndx_ok e then Some nothing
           else
             (let (sentinel_data, text_addr) = sentinel_scan (e_scns e) (None, 0) in
              case sentinel_data of
                None \<Rightarrow> Some nothing
              | Some d \<Rightarrow>
                  if d_size d = 0 then Some nothing
                  else
                    (let n = nat (c_int (d_size d div 24));
                         out = (\<lambda>es. \<lparr>pp_count = int (length es), pp_entries = es,
                                  pp_text_base = Some text_addr, pp_load_base = Some load_base\<rparr>) in
                     case d_buf d of
                       None \<Rightarrow> if n = 0 \<or> max_entries = 0 then Some (out []) else None
                     | Some buf \<Rightarrow>
                         Some (out (parse_entries max_entries
                                      (dec_array 24 read_policy_entry n buf)))))))"

subsection \<open>Searching for the \<open>syscall\<close> opcode\<close>

text \<open>
  Collects at most \<open>room\<close> addresses of the byte pair \<open>0f 05\<close> in the first \<open>limit\<close> bytes; \<open>bs\<close> is
  the memory that is there, from address \<open>a\<close> on. The second byte is read only after a first match.
\<close>

fun scan_opcodes :: "nat \<Rightarrow> nat \<Rightarrow> u64 \<Rightarrow> u8 list \<Rightarrow> u64 list option" where
  "scan_opcodes room limit a [] = (if limit < 2 \<or> room = 0 then Some [] else None)"
| "scan_opcodes room limit a (b # bs) =
     (if limit < 2 \<or> room = 0 then Some []
      else if b = 0x0F
      then (case bs of
              [] \<Rightarrow> None
            | b' # _ \<Rightarrow>
                if b' = 0x05
                then map_option (Cons a) (scan_opcodes (room - 1) (limit - 1) (a + 1) bs)
                else scan_opcodes room (limit - 1) (a + 1) bs)
      else scan_opcodes room (limit - 1) (a + 1) bs)"

definition LIBC_SCAN_DEFAULT :: u64 where "LIBC_SCAN_DEFAULT = 128"

text \<open>
  The first symbol of that name with a nonzero value, over all symbol tables in section order: its
  value and size.
\<close>

fun find_symbol :: "string \<Rightarrow> elf_scn list \<Rightarrow> (u64 \<times> u64) option option" where
  "find_symbol sym_name [] = Some None"
| "find_symbol sym_name (sc # scs) =
     (if (sh_type sc \<noteq> SHT_DYNSYM \<and> sh_type sc \<noteq> SHT_SYMTAB) \<or> scn_data sc = None
      then find_symbol sym_name scs
      else
        (case scn_syms sc of
           None \<Rightarrow> None
         | Some syms \<Rightarrow>
             (case find (\<lambda>sy. st_name sy = Some sym_name \<and> st_value sy \<noteq> 0) syms of
                Some sy \<Rightarrow> Some (Some (st_value sy, st_size sy))
              | None \<Rightarrow> find_symbol sym_name scs)))"

fun scan_symbol :: "nat \<Rightarrow> u64 \<Rightarrow> u64 \<Rightarrow> elf_scn list \<Rightarrow> u64 list option" where
  "scan_symbol max_offsets sym_addr sym_size [] = Some []"
| "scan_symbol max_offsets sym_addr sym_size (sc # scs) =
     (if \<not> is_exec_progbits sc \<or> sym_addr < sh_addr sc \<or> sym_addr \<ge> sh_addr sc + sh_size sc
      then scan_symbol max_offsets sym_addr sym_size scs
      else
        (case scn_data sc of
           Some (Data buf) \<Rightarrow>
             (let off_in_sec = sym_addr - sh_addr sc;
                  size = of_nat (length buf);
                  limit = (if off_in_sec + sym_size > size then size - off_in_sec else sym_size) in
              scan_opcodes max_offsets (unat limit) sym_addr (drop (unat off_in_sec) buf))
         | _ \<Rightarrow> Some []))"

definition resolve_libc_syscall_sites ::
  "(string \<Rightarrow> elf_open) \<Rightarrow> string \<Rightarrow> string \<Rightarrow> nat \<Rightarrow> u64 list option" where
  "resolve_libc_syscall_sites opened libc_path sym_name max_offsets =
     (case opened libc_path of
        ElfOpened e \<Rightarrow>
          (case find_symbol sym_name (e_scns e) of
             None \<Rightarrow> None
           | Some None \<Rightarrow> Some []
           | Some (Some (sym_addr, sym_size)) \<Rightarrow>
               scan_symbol max_offsets sym_addr
                 (if sym_size = 0 then LIBC_SCAN_DEFAULT else sym_size) (e_scns e))
      | _ \<Rightarrow> Some [])"

fun scan_sections :: "nat \<Rightarrow> elf_scn list \<Rightarrow> u64 list option" where
  "scan_sections room [] = Some []"
| "scan_sections room (sc # scs) =
     (if \<not> is_exec_progbits sc then scan_sections room scs
      else
        (case scn_data sc of
           Some (Data buf) \<Rightarrow>
             (case scan_opcodes room (length buf) (sh_addr sc) buf of
                None \<Rightarrow> None
              | Some found \<Rightarrow>
                  map_option (append found) (scan_sections (room - length found) scs))
         | _ \<Rightarrow> scan_sections room scs))"

definition scan_elf_text_for_syscalls ::
  "(string \<Rightarrow> elf_open) \<Rightarrow> string \<Rightarrow> nat \<Rightarrow> u64 list option" where
  "scan_elf_text_for_syscalls opened path max_offsets =
     (case opened path of ElfOpened e \<Rightarrow> scan_sections max_offsets (e_scns e) | _ \<Rightarrow> Some [])"

subsection \<open>The caller table of the binary\<close>

record sentinel_cfi_entry =
  cfi_site_addr :: u64
  cfi_func_addr :: u64

definition cfi_entry_bytes :: "sentinel_cfi_entry \<Rightarrow> u8 list" where
  "cfi_entry_bytes p = le64 (cfi_site_addr p) @ le64 (cfi_func_addr p)"

definition read_cfi_entry :: "u8 list \<Rightarrow> sentinel_cfi_entry" where
  "read_cfi_entry bs = \<lparr>cfi_site_addr = un_le64 bs, cfi_func_addr = un_le64 (drop 8 bs)\<rparr>"

interpretation cfi_entry_codec: struct_codec cfi_entry_bytes read_cfi_entry 16
  by standard (simp_all add: cfi_entry_bytes_def read_cfi_entry_def)

fun keep_cfi_entries :: "nat \<Rightarrow> sentinel_cfi_entry list \<Rightarrow> sentinel_cfi_entry list" where
  "keep_cfi_entries room [] = []"
| "keep_cfi_entries room (pe # pes) =
     (if room = 0 then []
      else if cfi_site_addr pe \<noteq> 0 then pe # keep_cfi_entries (room - 1) pes
      else keep_cfi_entries room pes)"

fun cfi_section :: "elf_scn list \<Rightarrow> elf_scn option" where
  "cfi_section [] = None"
| "cfi_section (sc # scs) = (if sh_name sc = Some ''.sentinel_cfi'' then Some sc else cfi_section scs)"

definition parse_sentinel_cfi :: "(string \<Rightarrow> elf_open) \<Rightarrow> string \<Rightarrow> nat \<Rightarrow> sentinel_cfi_entry list" where
  "parse_sentinel_cfi opened binary_path max_n =
     (case opened binary_path of
        ElfOpened e \<Rightarrow>
          if \<not> e_shstrndx_ok e then []
          else
            (case cfi_section (e_scns e) of
               None \<Rightarrow> []
             | Some sc \<Rightarrow>
                 (case scn_data sc of
                    Some (Data buf) \<Rightarrow>
                      keep_cfi_entries max_n
                        (dec_array 16 read_cfi_entry (nat (c_int (length buf div 16))) buf)
                  | _ \<Rightarrow> []))
      | _ \<Rightarrow> [])"

subsection \<open>Closed forms of the loops\<close>

lemma parse_entries_eq:
  "parse_entries room pes =
     take room (map (\<lambda>pe. (site_addr pe, decoded_nr pe)) (filter (\<lambda>pe. site_addr pe \<noteq> 0) pes))"
proof (induction pes arbitrary: room)
  case Nil
  show ?case by simp
next
  case (Cons pe pes)
  then show ?case by (cases room) simp_all
qed

lemma keep_cfi_entries_eq:
  "keep_cfi_entries room pes = take room (filter (\<lambda>pe. cfi_site_addr pe \<noteq> 0) pes)"
proof (induction pes arbitrary: room)
  case Nil
  show ?case by simp
next
  case (Cons pe pes)
  then show ?case by (cases room) simp_all
qed

text \<open>The addresses of the opcode in a memory region, in ascending order.\<close>

fun opcodes_at :: "u64 \<Rightarrow> u8 list \<Rightarrow> u64 list" where
  "opcodes_at a (b # b' # bs) =
     (if b = 0x0F \<and> b' = 0x05 then a # opcodes_at (a + 1) (b' # bs) else opcodes_at (a + 1) (b' # bs))"
| "opcodes_at a bs = []"

lemma opcodes_at_short: "length bs < 2 \<Longrightarrow> opcodes_at a bs = []"
  by (induction a bs rule: opcodes_at.induct) auto

lemma set_opcodes_at:
  "x \<in> set (opcodes_at a bs) \<longleftrightarrow>
     (\<exists>j. Suc j < length bs \<and> bs ! j = 0x0F \<and> bs ! Suc j = 0x05 \<and> x = a + of_nat j)"
proof (induction a bs rule: opcodes_at.induct)
  case (1 a b b' bs)
  let ?P = "\<lambda>cs c j. Suc j < length cs \<and> cs ! j = 0x0F \<and> cs ! Suc j = 0x05 \<and> x = c + of_nat j"
  have split: "(\<exists>j. ?P (b # b' # bs) a j) \<longleftrightarrow>
      ?P (b # b' # bs) a 0 \<or> (\<exists>j. ?P (b' # bs) (a + 1) j)"
  proof
    assume "\<exists>j. ?P (b # b' # bs) a j"
    then obtain j where "?P (b # b' # bs) a j" ..
    then show "?P (b # b' # bs) a 0 \<or> (\<exists>j. ?P (b' # bs) (a + 1) j)"
      by (cases j) (auto simp: algebra_simps)
  next
    assume "?P (b # b' # bs) a 0 \<or> (\<exists>j. ?P (b' # bs) (a + 1) j)"
    then show "\<exists>j. ?P (b # b' # bs) a j"
    proof
      assume "\<exists>j. ?P (b' # bs) (a + 1) j"
      then obtain j where "?P (b' # bs) (a + 1) j" ..
      then have "?P (b # b' # bs) a (Suc j)" by (simp add: algebra_simps)
      then show ?thesis by blast
    qed blast
  qed
  show ?case
  proof (cases "b = 0x0F \<and> b' = 0x05")
    case True
    then show ?thesis using 1(1) split by auto
  next
    case False
    then show ?thesis using 1(2) split by auto
  qed
qed auto

lemma scan_opcodes_stop: "limit < 2 \<or> room = 0 \<Longrightarrow> scan_opcodes room limit a bs = Some []"
  by (cases bs) auto

lemma scan_opcodes_step:
  "\<lbrakk>2 \<le> limit; 0 < room\<rbrakk> \<Longrightarrow> scan_opcodes room limit a (b # b' # bs) =
     (if b = 0x0F \<and> b' = 0x05
      then map_option (Cons a) (scan_opcodes (room - 1) (limit - 1) (a + 1) (b' # bs))
      else scan_opcodes room (limit - 1) (a + 1) (b' # bs))"
  by (subst scan_opcodes.simps(2)) (simp del: scan_opcodes.simps)

declare scan_opcodes.simps(2) [simp del]

lemma scan_opcodes_eq:
  "limit \<le> length bs \<Longrightarrow> scan_opcodes room limit a bs = Some (take room (opcodes_at a (take limit bs)))"
proof (induction bs arbitrary: room limit a)
  case Nil
  then show ?case by simp
next
  case (Cons b bs)
  show ?case
  proof (cases "limit < 2 \<or> room = 0")
    case True
    then show ?thesis by (auto simp: opcodes_at_short scan_opcodes_stop)
  next
    case False
    then obtain l r where l: "limit = Suc (Suc l)" and r: "room = Suc r"
      by (metis less_2_cases_iff not0_implies_Suc One_nat_def)
    then obtain b' cs where bs: "bs = b' # cs" using Cons.prems by (cases bs) auto
    have "scan_opcodes k (Suc l) (a + 1) (b' # cs) = Some (take k (opcodes_at (a + 1) (b' # take l cs)))" for k
      using Cons.IH [of "Suc l" k "a + 1"] Cons.prems l bs by simp
    then show ?thesis using l r bs by (auto simp: scan_opcodes_step)
  qed
qed

lemma scan_opcodes_overrun:
  "length bs + 2 \<le> limit \<Longrightarrow> length (opcodes_at a bs) < room \<Longrightarrow> scan_opcodes room limit a bs = None"
proof (induction a bs arbitrary: room limit rule: opcodes_at.induct)
  case (1 a b b' bs)
  show ?case
  proof (cases "b = 0x0F \<and> b' = 0x05")
    case True
    then show ?thesis using 1(1) [of "limit - 1" "room - 1"] 1(3,4) by (auto simp: scan_opcodes_step)
  next
    case False
    then show ?thesis using 1(2) [of "limit - 1" room] 1(3,4) by (auto simp: scan_opcodes_step)
  qed
qed (auto simp: scan_opcodes.simps(2))

definition section_sites :: "elf_scn \<Rightarrow> u64 list" where
  "section_sites sc =
     (case scn_data sc of
        Some (Data buf) \<Rightarrow> if is_exec_progbits sc then opcodes_at (sh_addr sc) buf else []
      | _ \<Rightarrow> [])"

lemma scan_sections_eq: "scan_sections room scs = Some (take room (concat (map section_sites scs)))"
  by (induction scs arbitrary: room)
    (auto simp: section_sites_def scan_opcodes_eq min_def split: option.splits elf_data.splits)

lemma sentinel_scan_append: "sentinel_scan (xs @ ys) acc = sentinel_scan ys (sentinel_scan xs acc)"
  by (induction xs acc rule: sentinel_scan.induct) auto

lemma sentinel_scan_absent:
  "\<forall>sc \<in> set scs. sh_name sc \<noteq> Some ''.sentinel'' \<Longrightarrow> fst (sentinel_scan scs acc) = fst acc"
  by (induction scs acc rule: sentinel_scan.induct) (auto split: option.splits)

text \<open>The last section of that name is the one that counts.\<close>

lemma sentinel_scan_last:
  assumes "sh_name sc = Some ''.sentinel''" and "\<forall>sc \<in> set post. sh_name sc \<noteq> Some ''.sentinel''"
  shows "fst (sentinel_scan (pre @ sc # post) acc) = scn_data sc"
  using assms
  by (cases "sentinel_scan pre acc") (simp add: sentinel_scan_append sentinel_scan_absent)

lemma parse_without_sentinel:
  assumes "opened path = ElfOpened e" and "\<forall>sc \<in> set (e_scns e). sh_name sc \<noteq> Some ''.sentinel''"
  shows "parse_sentinel_section opened path n =
    Some \<lparr>pp_count = 0, pp_entries = [], pp_text_base = None, pp_load_base = Some (elf_load_base (e_phdrs e))\<rparr>"
  using assms sentinel_scan_absent [OF assms(2), of "(None, 0)"]
  by (cases "sentinel_scan (e_scns e) (None, 0)") (simp add: parse_sentinel_section_def Let_def)

lemma table_count:
  fixes es :: "policy_entry list" and junk :: "u8 list"
  assumes "length junk < 24" and "length es < 2 ^ 31"
  shows "nat (c_int (length (concat (map policy_entry_bytes es) @ junk) div 24)) = length es"
proof -
  have "length (concat (map policy_entry_bytes es) @ junk) div 24 = length es"
    using assms(1) by (simp add: size_simps)
  then show ?thesis using assms(2) by (simp add: c_int_small)
qed

lemma parse_buffer:
  assumes "opened path = ElfOpened e" and "e_shstrndx_ok e"
    and "fst (sentinel_scan (e_scns e) (None, 0)) = Some (Data buf)" and "buf \<noteq> []"
    and "es = parse_entries n (dec_array 24 read_policy_entry (nat (c_int (length buf div 24))) buf)"
  shows "\<exists>tb. parse_sentinel_section opened path n =
    Some \<lparr>pp_count = int (length es), pp_entries = es,
      pp_text_base = Some tb, pp_load_base = Some (elf_load_base (e_phdrs e))\<rparr>"
  using assms by (cases "sentinel_scan (e_scns e) (None, 0)")
    (simp add: parse_sentinel_section_def Let_def)

lemma parse_table:
  assumes "opened path = ElfOpened e" and "e_shstrndx_ok e"
    and "fst (sentinel_scan (e_scns e) (None, 0)) = Some (Data (concat (map policy_entry_bytes es) @ junk))"
    and "es \<noteq> []" and "length junk < 24" and "length es < 2 ^ 31"
  shows "\<exists>tb. parse_sentinel_section opened path n =
    Some \<lparr>pp_count = int (length (parse_entries n es)), pp_entries = parse_entries n es,
      pp_text_base = Some tb, pp_load_base = Some (elf_load_base (e_phdrs e))\<rparr>"
proof (rule parse_buffer [of opened path, OF assms(1-3)])
  have "length (concat (map policy_entry_bytes es)) \<noteq> 0"
    using assms(4) by (simp only: size_simps) simp
  then show "concat (map policy_entry_bytes es) @ junk \<noteq> []" by auto
  show "parse_entries n es = parse_entries n (dec_array 24 read_policy_entry
      (nat (c_int (length (concat (map policy_entry_bytes es) @ junk) div 24)))
      (concat (map policy_entry_bytes es) @ junk))"
    by (simp only: table_count [OF assms(5,6)] codec_simps)
qed

text \<open>The opcode lies at an address of an executable section.\<close>

definition opcode_in :: "elf_view \<Rightarrow> u64 \<Rightarrow> bool" where
  "opcode_in e x \<longleftrightarrow> (\<exists>sc \<in> set (e_scns e). \<exists>buf j. is_exec_progbits sc \<and> scn_data sc = Some (Data buf) \<and>
     Suc j < length buf \<and> buf ! j = 0x0F \<and> buf ! Suc j = 0x05 \<and> x = sh_addr sc + of_nat j)"

lemma set_section_sites:
  "x \<in> set (section_sites sc) \<longleftrightarrow> (\<exists>buf j. is_exec_progbits sc \<and> scn_data sc = Some (Data buf) \<and>
     Suc j < length buf \<and> buf ! j = 0x0F \<and> buf ! Suc j = 0x05 \<and> x = sh_addr sc + of_nat j)"
proof (cases "scn_data sc")
  case (Some d)
  then show ?thesis by (cases d) (auto simp: section_sites_def set_opcodes_at)
qed (simp add: section_sites_def)

lemma scan_elf_eq:
  "opened path = ElfOpened e \<Longrightarrow>
     scan_elf_text_for_syscalls opened path n = Some (take n (concat (map section_sites (e_scns e))))"
  by (simp add: scan_elf_text_for_syscalls_def scan_sections_eq)

lemma scan_elf_total: "\<exists>sites. scan_elf_text_for_syscalls opened path n = Some sites \<and> length sites \<le> n"
  by (cases "opened path") (simp_all add: scan_elf_text_for_syscalls_def scan_sections_eq)

lemma opcode_in_sites: "opcode_in e x \<longleftrightarrow> x \<in> set (concat (map section_sites (e_scns e)))"
  unfolding set_concat set_map by (simp add: opcode_in_def set_section_sites)

text \<open>
  A section whose data is all there: as many bytes as the header says, and no wrap-around at the end
  of the address space.
\<close>

definition wf_section :: "elf_scn \<Rightarrow> bool" where
  "wf_section sc \<longleftrightarrow> (\<forall>buf. scn_data sc = Some (Data buf) \<longrightarrow>
     unat (sh_size sc) = length buf \<and> unat (sh_addr sc) + length buf < 2 ^ 64)"

text \<open>The bytes of a symbol that lie in a well-formed section around it.\<close>

lemma symbol_window:
  fixes a z base size :: u64
  assumes "base \<le> a" and "a < base + size" and "unat base + unat size < 2 ^ 64"
    and "unat a + unat z < 2 ^ 64"
  shows "unat (a - base) = unat a - unat base" and "unat a - unat base < unat size"
    and "unat (if a - base + z > size then size - (a - base) else z) =
      min (unat z) (unat size - (unat a - unat base))"
proof -
  have le: "unat base \<le> unat a" using assms(1) by (simp add: word_le_nat_alt)
  have sum: "unat (base + size) = unat base + unat size"
    using assms(3) by (simp add: unat_word_ariths(1))
  show diff: "unat (a - base) = unat a - unat base" using assms(1) by (simp add: unat_sub)
  show small: "unat a - unat base < unat size"
    using assms(2) le sum by (simp add: word_less_nat_alt)
  have plus: "unat (a - base + z) = unat a - unat base + unat z"
    using assms(4) le by (simp add: unat_word_ariths(1) diff)
  have "a - base \<le> size" using small diff by (simp add: word_le_nat_alt)
  then have "unat (size - (a - base)) = unat size - (unat a - unat base)"
    by (simp add: unat_sub diff)
  then show "unat (if a - base + z > size then size - (a - base) else z) =
      min (unat z) (unat size - (unat a - unat base))"
    using small by (auto simp: word_less_nat_alt plus)
qed

lemma opcodes_window:
  assumes "off \<le> length buf" and "unat base + length buf < 2 ^ 64"
  shows "x \<in> set (opcodes_at (base + of_nat off) (take n (drop off buf))) \<longleftrightarrow>
    (\<exists>j. Suc j < length buf \<and> buf ! j = 0x0F \<and> buf ! Suc j = 0x05 \<and> x = base + of_nat j \<and>
      unat base + off \<le> unat x \<and> Suc (unat x) < unat base + off + n)" (is "?lhs \<longleftrightarrow> ?rhs")
proof -
  have pos: "unat (base + of_nat j) = unat base + j" if "j < length buf" for j
    using that assms(2) by (simp add: unat_word_ariths(1) unat_of_nat take_bit_eq_mod)
  show ?thesis
  proof
    assume ?lhs
    then obtain j where j: "Suc j < n" "Suc (off + j) < length buf"
        "buf ! (off + j) = 0x0F" "buf ! Suc (off + j) = 0x05" "x = base + of_nat (off + j)"
      using assms(1) by (auto simp: set_opcodes_at algebra_simps)
    moreover have "unat x = unat base + (off + j)" using j(2) pos [of "off + j"] by (simp add: j(5))
    ultimately show ?rhs by (intro exI [of _ "off + j"]) simp
  next
    assume ?rhs
    then obtain j where j: "Suc j < length buf" "buf ! j = 0x0F" "buf ! Suc j = 0x05" "x = base + of_nat j"
        "unat base + off \<le> unat x" "Suc (unat x) < unat base + off + n" by blast
    then have "off \<le> j" "Suc (j - off) < n" using pos [of j] by simp_all
    then show ?lhs using j(1-4) by (auto simp: set_opcodes_at intro!: exI [of _ "j - off"])
  qed
qed

text \<open>
  The section a symbol is scanned in is the first executable one whose address range holds the
  symbol's address. The \<open>syscall\<close> opcodes of a symbol of \<open>z\<close> bytes at \<open>a\<close> are those of that section
  with both bytes inside the symbol.
\<close>

definition holds_symbol :: "u64 \<Rightarrow> elf_scn \<Rightarrow> bool" where
  "holds_symbol a sc \<longleftrightarrow> is_exec_progbits sc \<and> sh_addr sc \<le> a \<and> a < sh_addr sc + sh_size sc"

definition symbol_opcode :: "elf_scn list \<Rightarrow> u64 \<Rightarrow> u64 \<Rightarrow> u64 \<Rightarrow> bool" where
  "symbol_opcode scs a z x \<longleftrightarrow> (\<exists>sc buf j. find (holds_symbol a) scs = Some sc \<and> scn_data sc = Some (Data buf) \<and>
     Suc j < length buf \<and> buf ! j = 0x0F \<and> buf ! Suc j = 0x05 \<and> x = sh_addr sc + of_nat j \<and>
     unat a \<le> unat x \<and> Suc (unat x) < unat a + unat z)"

lemma scan_symbol_here:
  assumes "holds_symbol a sc" and "scn_data sc = Some (Data buf)"
    and "wf_section sc" and "unat a + unat z < 2 ^ 64"
  shows "\<exists>xs. scan_symbol n a z (sc # scs) = Some (take n xs) \<and> (\<forall>x. x \<in> set xs \<longleftrightarrow> symbol_opcode (sc # scs) a z x)"
proof -
  have here: "is_exec_progbits sc" "sh_addr sc \<le> a" "a < sh_addr sc + sh_size sc"
    using assms(1) by (simp_all add: holds_symbol_def)
  let ?off = "unat a - unat (sh_addr sc)"
  let ?lim = "min (unat z) (length buf - ?off)"
  have wf: "unat (sh_size sc) = length buf" "unat (sh_addr sc) + length buf < 2 ^ 64"
    using assms(2,3) by (auto simp: wf_section_def)
  have size: "(of_nat (length buf) :: u64) = sh_size sc" by (simp flip: wf(1))
  note win = symbol_window [OF here(2,3) _ assms(4), unfolded wf(1), OF wf(2)]
  have a: "sh_addr sc + of_nat ?off = a" by (simp flip: win(1))
  have base: "unat (sh_addr sc) + ?off = unat a" using here(2) by (simp add: word_le_nat_alt)
  have inside: "\<not> a < sh_addr sc" "\<not> sh_addr sc + sh_size sc \<le> a" using here(2,3) by simp_all
  have "scan_symbol n a z (sc # scs) = scan_opcodes n ?lim a (drop ?off buf)"
    using here(1) assms(2) inside win(1,3) by (simp add: size Let_def)
  also have "\<dots> = Some (take n (opcodes_at a (take ?lim (drop ?off buf))))"
    by (rule scan_opcodes_eq) simp
  also have "take ?lim (drop ?off buf) = take (unat z) (drop ?off buf)" by (simp add: min_def)
  finally have scan: "scan_symbol n a z (sc # scs) = Some (take n (opcodes_at a (take (unat z) (drop ?off buf))))" .
  have "?off \<le> length buf" using win(2) by simp
  note opcodes_window [of ?off buf "sh_addr sc" _ "unat z", unfolded a base, OF this wf(2)]
  then show ?thesis using scan assms(1,2) by (auto simp: symbol_opcode_def)
qed

lemma scan_symbol_exact:
  assumes "\<forall>sc \<in> set scs. wf_section sc" and "unat a + unat z < 2 ^ 64"
  shows "\<exists>xs. scan_symbol n a z scs = Some (take n xs) \<and> (\<forall>x. x \<in> set xs \<longleftrightarrow> symbol_opcode scs a z x)"
  using assms(1)
proof (induction scs)
  case Nil
  show ?case by (simp add: symbol_opcode_def)
next
  case (Cons sc scs)
  then have wf: "wf_section sc" "\<forall>sc \<in> set scs. wf_section sc" by simp_all
  show ?case
  proof (cases "holds_symbol a sc")
    case False
    then have "scan_symbol n a z (sc # scs) = scan_symbol n a z scs" by (auto simp: holds_symbol_def)
    moreover have "symbol_opcode (sc # scs) a z = symbol_opcode scs a z"
      using False by (simp add: symbol_opcode_def fun_eq_iff)
    ultimately show ?thesis using Cons.IH [OF wf(2)] by simp
  next
    case True
    show ?thesis
    proof (cases "\<exists>buf. scn_data sc = Some (Data buf)")
      case True
      then show ?thesis using scan_symbol_here [OF \<open>holds_symbol a sc\<close> _ wf(1) assms(2), of _ n scs] by blast
    next
      case nodata: False
      then have "scan_symbol n a z (sc # scs) = Some (take n [])"
        using True by (auto simp: holds_symbol_def split: option.splits elf_data.splits)
      moreover have "\<not> symbol_opcode (sc # scs) a z x" for x
        using True nodata by (simp add: symbol_opcode_def)
      ultimately show ?thesis by (metis empty_iff list.set(1))
    qed
  qed
qed

subsection \<open>An example file\<close>

text \<open>
  A position-dependent binary loaded at \<open>0x400000\<close> with one system call instruction at
  \<open>0x401001\<close>, recorded with number 1, a null entry, and a symbol \<open>write\<close> of three bytes around it.
\<close>

definition ex_text :: elf_scn where
  "ex_text = \<lparr>sh_name = Some ''.text'', sh_type = SHT_PROGBITS, sh_flags = 6, sh_addr = 0x401000,
     sh_size = 4, sh_entsize = 0, scn_data = Some (Data [0x90, 0x0F, 0x05, 0xC3]), scn_sym = undefined\<rparr>"

definition ex_table :: "policy_entry list" where
  "ex_table = [\<lparr>site_addr = 0x401001, func_addr = 0x401000, syscall_nr = 2\<rparr>,
     \<lparr>site_addr = 0, func_addr = 0, syscall_nr = 0\<rparr>]"

definition ex_sentinel :: elf_scn where
  "ex_sentinel = ex_text\<lparr>sh_name := Some ''.sentinel'', sh_flags := 2, sh_addr := 0x402000,
     scn_data := Some (Data (concat (map policy_entry_bytes ex_table)))\<rparr>"

definition ex_symtab :: elf_scn where
  "ex_symtab = ex_text\<lparr>sh_name := Some ''.symtab'', sh_type := SHT_SYMTAB, sh_flags := 0, sh_size := 24,
     sh_entsize := 24, scn_data := Some (Data []),
     scn_sym := (\<lambda>_. \<lparr>st_name = Some ''write'', st_value = 0x401000, st_size = 3, st_type = STT_FUNC\<rparr>)\<rparr>"

definition ex_elf :: elf_view where
  "ex_elf = \<lparr>e_phdrs = [None, Some \<lparr>p_type = PT_LOAD, p_vaddr = 0x400000\<rparr>], e_shstrndx_ok = True,
     e_scns = [ex_text, ex_sentinel, ex_symtab]\<rparr>"

lemmas ex_elf_defs = ex_elf_def ex_text_def ex_sentinel_def ex_symtab_def

lemma ex_text_exec: "is_exec_progbits ex_text"
  by (simp add: is_exec_progbits_def ex_text_def SHF_EXECINSTR_def)

subsection \<open>Properties\<close>

text \<open>
  C12: Reading back a policy table: from a \<open>.sentinel\<close> section that holds the images of a list of
  entries, the loader recovers every entry with a nonzero site, in order, with its number decoded,
  up to the capacity of its arrays, and the address of the first loadable segment.
\<close>

theorem parse_recovers_entries:
  assumes "opened path = ElfOpened e" and "e_shstrndx_ok e" and "e_scns e = pre @ sc # post"
    and "sh_name sc = Some ''.sentinel''" and "\<forall>sc \<in> set post. sh_name sc \<noteq> Some ''.sentinel''"
    and "scn_data sc = Some (Data (concat (map policy_entry_bytes es) @ junk))"
    and "es \<noteq> []" and "length junk < 24" and "length es < 2 ^ 31"
  shows "\<exists>p. parse_sentinel_section opened path n = Some p \<and> pp_count p = int (length (pp_entries p)) \<and>
    pp_entries p = take n (map (\<lambda>pe. (site_addr pe, decoded_nr pe)) (filter (\<lambda>pe. site_addr pe \<noteq> 0) es)) \<and>
    pp_load_base p = Some (elf_load_base (e_phdrs e))"
proof -
  have "fst (sentinel_scan (e_scns e) (None, 0)) = Some (Data (concat (map policy_entry_bytes es) @ junk))"
    using sentinel_scan_last [OF assms(4,5)] assms(3,6) by simp
  from parse_table [of opened path, OF assms(1,2) this assms(7-9), of n] show ?thesis
    by (auto simp: parse_entries_eq)
qed

theorem parse_recovers_entries_witness:
  "\<exists>p. parse_sentinel_section (\<lambda>_. ElfOpened ex_elf) ''a.out'' 4096 = Some p \<and>
    pp_entries p = [(0x401001, 1)] \<and> pp_load_base p = Some 0x400000"
  using parse_recovers_entries [of "\<lambda>_. ElfOpened ex_elf" "''a.out''" ex_elf "[ex_text]" ex_sentinel
      "[ex_symtab]" ex_table "[]" 4096]
  by (auto simp: ex_elf_defs ex_table_def decoded_nr_def PT_LOAD_def)

text \<open>
  C10: The full-text scan of a library never faults and returns at most as many addresses as asked
  for; each is the address of a \<open>syscall\<close> opcode in an executable section, and below the limit every
  such address is returned.
\<close>

theorem scan_elf_exact:
  assumes "opened path = ElfOpened e"
  shows "\<exists>sites. scan_elf_text_for_syscalls opened path n = Some sites \<and> length sites \<le> n \<and>
    (\<forall>x. x \<in> set sites \<longrightarrow> opcode_in e x) \<and> (length sites < n \<longrightarrow> (\<forall>x. opcode_in e x \<longrightarrow> x \<in> set sites))"
proof -
  let ?xs = "concat (map section_sites (e_scns e))"
  have all: "take n ?xs = ?xs" if "length (take n ?xs) < n" using that by (simp del: length_concat)
  show ?thesis
    unfolding opcode_in_sites scan_elf_eq [of opened path, OF assms]
    using all by (intro exI [of _ "take n ?xs"] conjI) (auto simp del: set_concat dest: in_set_takeD)
qed

lemma ex_sites: "concat (map section_sites (e_scns ex_elf)) = [0x401001]"
  using ex_text_exec
  by (simp add: section_sites_def is_exec_progbits_def SHF_EXECINSTR_def SHT_PROGBITS_def SHT_SYMTAB_def
      ex_elf_defs)

theorem scan_elf_exact_witness:
  "\<exists>sites. scan_elf_text_for_syscalls (\<lambda>_. ElfOpened ex_elf) ''a.out'' 512 = Some sites \<and> 0x401001 \<in> set sites"
  using scan_elf_exact [of "\<lambda>_. ElfOpened ex_elf" "''a.out''" ex_elf 512]
    scan_elf_eq [of "\<lambda>_. ElfOpened ex_elf" "''a.out''" ex_elf 512]
  by (simp only: opcode_in_sites ex_sites) simp

text \<open>
  C18: The sites resolved for a libc wrapper are the \<open>syscall\<close> opcodes inside it: when the file's
  sections are complete and the symbol does not wrap around the address space, resolving a found
  symbol does not fault and returns at most the asked number of addresses. Each is that of an opcode,
  with both bytes within the symbol (or the default window of 128 bytes for a symbol without a size),
  of the first executable section that holds the symbol, and below the asked number every such
  address is returned.
\<close>

theorem resolve_sites_exact:
  assumes "opened path = ElfOpened e" and "find_symbol nm (e_scns e) = Some (Some (a, z))"
    and "\<forall>sc \<in> set (e_scns e). wf_section sc"
    and "unat a + unat (if z = 0 then LIBC_SCAN_DEFAULT else z) < 2 ^ 64"
  shows "\<exists>sites. resolve_libc_syscall_sites opened path nm n = Some sites \<and> length sites \<le> n \<and>
    (\<forall>x \<in> set sites. symbol_opcode (e_scns e) a (if z = 0 then LIBC_SCAN_DEFAULT else z) x) \<and>
    (length sites < n \<longrightarrow>
      (\<forall>x. symbol_opcode (e_scns e) a (if z = 0 then LIBC_SCAN_DEFAULT else z) x \<longrightarrow> x \<in> set sites))"
proof -
  let ?z = "if z = 0 then LIBC_SCAN_DEFAULT else z"
  have "resolve_libc_syscall_sites opened path nm n = scan_symbol n a ?z (e_scns e)"
    using assms(1,2) by (simp add: resolve_libc_syscall_sites_def)
  moreover obtain xs where "scan_symbol n a ?z (e_scns e) = Some (take n xs)"
    "\<forall>x. x \<in> set xs \<longleftrightarrow> symbol_opcode (e_scns e) a ?z x" using scan_symbol_exact [OF assms(3,4)] by blast
  ultimately show ?thesis by (auto simp: min_def dest: in_set_takeD)
qed

definition ex_libc :: elf_view where
  "ex_libc = ex_elf\<lparr>e_scns := [ex_text, ex_symtab\<lparr>scn_data := Some (NoBits 24)\<rparr>]\<rparr>"

lemma ex_libc_symbol: "find_symbol ''write'' (e_scns ex_libc) = Some (Some (0x401000, 3))"
  by (simp add: ex_libc_def ex_elf_defs scn_syms_def c_int_def SHT_PROGBITS_def SHT_SYMTAB_def SHT_DYNSYM_def)

lemma ex_libc_wf: "\<forall>sc \<in> set (e_scns ex_libc). wf_section sc"
  by (simp add: wf_section_def ex_libc_def ex_elf_defs)

lemma ex_libc_opcode: "symbol_opcode (e_scns ex_libc) 0x401000 3 0x401001"
  by (simp add: symbol_opcode_def ex_libc_def holds_symbol_def ex_text_exec)
    (auto simp: ex_text_def intro!: exI [of _ "Suc 0"])

theorem resolve_sites_exact_witness:
  "\<exists>sites. resolve_libc_syscall_sites (\<lambda>_. ElfOpened ex_libc) ''libc.so.6'' ''write'' 8 = Some sites \<and>
     0x401001 \<in> set sites"
proof -
  have "length sites \<le> 1" if "resolve_libc_syscall_sites (\<lambda>_. ElfOpened ex_libc) ''libc.so.6'' ''write'' 8 = Some sites" for sites
    using that ex_libc_symbol ex_text_exec
    by (simp add: resolve_libc_syscall_sites_def ex_libc_def) (auto simp: ex_text_def scan_opcodes_eq)
  moreover note resolve_sites_exact [of "\<lambda>_. ElfOpened ex_libc" "''libc.so.6''", OF _ ex_libc_symbol ex_libc_wf, of 8]
  ultimately show ?thesis using ex_libc_opcode by fastforce
qed

text \<open>
  The bound on the scan can wrap: for a symbol whose size makes the 64-bit sum of its offset and
  size wrap below the section size, the loop runs past the end of the section and faults (unless it
  fills its output first).
\<close>

lemma oversized_symbol_overruns:
  assumes "is_exec_progbits sc" and "scn_data sc = Some (Data buf)"
    and "sh_addr sc \<le> a" and "a < sh_addr sc + sh_size sc"
    and "a - sh_addr sc + z \<le> of_nat (length buf)" and "length buf + 2 \<le> unat z"
    and "length (opcodes_at a (drop (unat (a - sh_addr sc)) buf)) < n"
  shows "scan_symbol n a z (sc # scs) = None"
proof -
  have "\<not> a < sh_addr sc" "\<not> sh_addr sc + sh_size sc \<le> a" "\<not> of_nat (length buf) < a - sh_addr sc + z"
    using assms(3-5) by simp_all
  then have "scan_symbol n a z (sc # scs) =
      scan_opcodes n (unat z) a (drop (unat (a - sh_addr sc)) buf)"
    using assms(1,2) by (simp add: Let_def)
  also have "\<dots> = None" by (rule scan_opcodes_overrun) (use assms(6,7) in simp_all)
  finally show ?thesis .
qed

end
