(* ===== verification/CallGraph.thy ===== *)
theory CallGraph
  imports LoaderElf
begin

text \<open>
  The call-graph tracer of \<open>src/runtime/loader.c\<close>: the sorted table of libc's function symbols, the
  search for the symbol around an address, the bytes of a function, and the breadth-first search over
  relative calls and jumps that collects the \<open>syscall\<close> sites of the functions reachable from an
  application's imports. Pointers into the symbol array are indices. \<open>alloc_ok n\<close> says whether an
  allocation of \<open>n\<close> bytes succeeds.
\<close>

definition MAX_LIBC_SYMS :: nat where "MAX_LIBC_SYMS = 8192"
definition MAX_REACHABLE :: nat where "MAX_REACHABLE = 4096"
definition CALLGRAPH_DEPTH_LIMIT :: nat where "CALLGRAPH_DEPTH_LIMIT = 24"
definition DEFAULT_FUNC_SIZE :: u64 where "DEFAULT_FUNC_SIZE = 256"

subsection \<open>The symbol table\<close>

record libc_sym_entry =
  le_addr :: u64
  le_size :: u64
  le_name :: string

text \<open>
  \<open>qsort\<close> is given a comparison function. The addresses in the table are distinct, so that its result
  does not depend on the algorithm; it is modelled by insertion.
\<close>

definition sym_addr_cmp :: "libc_sym_entry \<Rightarrow> libc_sym_entry \<Rightarrow> int" where
  "sym_addr_cmp sa sb = (if le_addr sa < le_addr sb then - 1 else if le_addr sa > le_addr sb then 1 else 0)"

fun qsort_insert :: "('a \<Rightarrow> 'a \<Rightarrow> int) \<Rightarrow> 'a \<Rightarrow> 'a list \<Rightarrow> 'a list" where
  "qsort_insert cmp x [] = [x]"
| "qsort_insert cmp x (y # ys) = (if cmp x y \<le> 0 then x # y # ys else y # qsort_insert cmp x ys)"

definition qsort :: "('a \<Rightarrow> 'a \<Rightarrow> int) \<Rightarrow> 'a list \<Rightarrow> 'a list" where
  "qsort cmp xs = foldr (qsort_insert cmp) xs []"

lemma qsort_sym_addr_cmp [simp]: "qsort sym_addr_cmp xs = sort_key le_addr xs"
proof -
  have "sym_addr_cmp x y \<le> 0 \<longleftrightarrow> le_addr x \<le> le_addr y" for x y by (auto simp: sym_addr_cmp_def)
  then have "qsort_insert sym_addr_cmp x ys = insort_key le_addr x ys" for x ys by (induction ys) auto
  then show ?thesis by (induction xs) (simp_all add: qsort_def)
qed

fun add_symbols :: "nat \<Rightarrow> gelf_sym list \<Rightarrow> libc_sym_entry list \<Rightarrow> libc_sym_entry list" where
  "add_symbols max_n [] out = out"
| "add_symbols max_n (sy # sys) out =
     (if length out \<ge> max_n then out
      else
        add_symbols max_n sys
          (if st_type sy \<noteq> STT_FUNC \<or> st_value sy = 0 then out
           else
             (case st_name sy of
                None \<Rightarrow> out
              | Some name \<Rightarrow>
                  if name = [] \<or> list_ex (\<lambda>e. le_addr e = st_value sy) out then out
                  else out @ [\<lparr>le_addr = st_value sy,
                               le_size = (if st_size sy = 0 then DEFAULT_FUNC_SIZE else st_size sy),
                               le_name = take 127 name\<rparr>])))"

fun symtab_sections :: "nat \<Rightarrow> elf_scn list \<Rightarrow> libc_sym_entry list \<Rightarrow> libc_sym_entry list option" where
  "symtab_sections max_n [] out = Some out"
| "symtab_sections max_n (sc # scs) out =
     (if (sh_type sc \<noteq> SHT_DYNSYM \<and> sh_type sc \<noteq> SHT_SYMTAB) \<or> scn_data sc = None
      then symtab_sections max_n scs out
      else (case scn_syms sc of
              None \<Rightarrow> None
            | Some syms \<Rightarrow> symtab_sections max_n scs (add_symbols max_n syms out)))"

definition build_libc_symtab ::
  "(string \<Rightarrow> elf_open) \<Rightarrow> string \<Rightarrow> nat \<Rightarrow> libc_sym_entry list option" where
  "build_libc_symtab opened path max_n =
     (case opened path of
        ElfOpened e \<Rightarrow> map_option (qsort sym_addr_cmp) (symtab_sections max_n (e_scns e) [])
      | _ \<Rightarrow> Some [])"

subsection \<open>Finding symbols\<close>

function bsearch :: "libc_sym_entry list \<Rightarrow> u64 \<Rightarrow> int \<Rightarrow> int \<Rightarrow> nat option" where
  "bsearch syms addr lo hi =
     (if lo \<le> hi then
        (let mid = (lo + hi) div 2; m = syms ! nat mid in
         if addr < le_addr m then bsearch syms addr lo (mid - 1)
         else if addr \<ge> le_addr m + le_size m then bsearch syms addr (mid + 1) hi
         else Some (nat mid))
      else None)"
  by pat_completeness auto
termination
  by (relation "measure (\<lambda>(syms, addr, lo, hi). nat (hi + 1 - lo))") auto

declare bsearch.simps [simp del]

definition sym_covers :: "libc_sym_entry \<Rightarrow> u64 \<Rightarrow> bool" where
  "sym_covers e addr \<longleftrightarrow> le_addr e \<le> addr \<and> addr < le_addr e + le_size e"

fun back_scan :: "libc_sym_entry list \<Rightarrow> u64 \<Rightarrow> nat \<Rightarrow> nat option" where
  "back_scan syms addr 0 = None"
| "back_scan syms addr (Suc i) =
     (if sym_covers (syms ! i) addr then Some i
      else if le_addr (syms ! i) < addr then None
      else back_scan syms addr i)"

definition find_sym_at_addr :: "libc_sym_entry list \<Rightarrow> u64 \<Rightarrow> nat option" where
  "find_sym_at_addr syms addr =
     (case bsearch syms addr 0 (int (length syms) - 1) of
        Some i \<Rightarrow> Some i
      | None \<Rightarrow> back_scan syms addr (length syms))"

fun find_sym_from :: "nat \<Rightarrow> libc_sym_entry list \<Rightarrow> string \<Rightarrow> nat option" where
  "find_sym_from i [] name = None"
| "find_sym_from i (e # es) name = (if le_name e = name then Some i else find_sym_from (Suc i) es name)"

definition find_sym_by_name :: "libc_sym_entry list \<Rightarrow> string \<Rightarrow> nat option" where
  "find_sym_by_name syms name = find_sym_from 0 syms name"

subsection \<open>Executable bytes\<close>

record exec_section =
  xs_vaddr :: u64
  xs_data :: "u8 list"

fun keep_exec_sections :: "(nat \<Rightarrow> bool) \<Rightarrow> nat \<Rightarrow> elf_scn list \<Rightarrow> exec_section list" where
  "keep_exec_sections alloc_ok room [] = []"
| "keep_exec_sections alloc_ok room (sc # scs) =
     (if room = 0 then []
      else if \<not> is_exec_progbits sc then keep_exec_sections alloc_ok room scs
      else
        (case scn_data sc of
           Some (Data buf) \<Rightarrow>
             if buf = [] \<or> \<not> alloc_ok (length buf) then keep_exec_sections alloc_ok room scs
             else \<lparr>xs_vaddr = sh_addr sc, xs_data = buf\<rparr> # keep_exec_sections alloc_ok (room - 1) scs
         | _ \<Rightarrow> keep_exec_sections alloc_ok room scs))"

definition load_exec_sections ::
  "(nat \<Rightarrow> bool) \<Rightarrow> (string \<Rightarrow> elf_open) \<Rightarrow> string \<Rightarrow> nat \<Rightarrow> exec_section list" where
  "load_exec_sections alloc_ok opened path max_n =
     (case opened path of ElfOpened e \<Rightarrow> keep_exec_sections alloc_ok max_n (e_scns e) | _ \<Rightarrow> [])"

text \<open>The available bytes from an address on, at most \<open>len\<close>; \<open>None\<close> when no section holds it.\<close>

fun get_bytes_at :: "exec_section list \<Rightarrow> u64 \<Rightarrow> nat \<Rightarrow> u8 list option" where
  "get_bytes_at [] addr len = None"
| "get_bytes_at (x # secs) addr len =
     (if addr \<ge> xs_vaddr x \<and> addr < xs_vaddr x + of_nat (length (xs_data x))
      then Some (take len (drop (unat (addr - xs_vaddr x)) (xs_data x)))
      else get_bytes_at secs addr len)"

subsection \<open>The search\<close>

text \<open>
  The two arrays of the search: one visited mark per symbol, and the filled part of a queue of
  \<open>MAX_REACHABLE\<close> indices. An access outside an array is a fault, \<open>None\<close>.
\<close>

type_synonym bfs_state = "bool list \<times> nat list"

definition queue_store :: "nat list \<Rightarrow> nat \<Rightarrow> nat list option" where
  "queue_store queue idx = (if length queue < MAX_REACHABLE then Some (queue @ [idx]) else None)"

definition enqueue :: "nat \<Rightarrow> bfs_state \<Rightarrow> bfs_state option" where
  "enqueue idx vq =
     (case vq of (visited, queue) \<Rightarrow>
        if idx \<ge> length visited then None
        else if \<not> visited ! idx \<and> length queue < MAX_REACHABLE
        then map_option (Pair (visited[idx := True])) (queue_store queue idx)
        else Some vq)"

definition seed_name :: "libc_sym_entry list \<Rightarrow> string \<Rightarrow> bfs_state \<Rightarrow> bfs_state option" where
  "seed_name syms name vq =
     (case find_sym_by_name syms name of None \<Rightarrow> Some vq | Some idx \<Rightarrow> enqueue idx vq)"

definition essential_seeds :: "string list" where
  "essential_seeds =
     [''__syscall_cancel_arch'', ''__syscall_cancel'',
      ''__internal_syscall_cancel'', ''__libc_do_syscall'',
      ''__GI___ioctl'', ''__ioctl'', ''ioctl'',
      ''__isatty'', ''isatty'', ''__isatty_nostatus'',
      ''__tcgetattr'', ''tcgetattr'',
      ''__GI___fstat64'', ''__fstat64'', ''__fxstat64'', ''fstat'', ''__fstat'',
      ''__GI___lseek64'', ''__lseek64'', ''lseek64'', ''lseek'',
      ''__brk'', ''__sbrk'', ''__mmap'', ''__munmap'',
      ''__sigaction'', ''__rt_sigaction'', ''__sigprocmask'',
      ''_exit'', ''__GI__exit'', ''__exit_funcs'']"

definition variant_of :: "string \<Rightarrow> string \<Rightarrow> bool" where
  "variant_of base sn \<longleftrightarrow> contains sn base \<and> (starts_with ''__'' sn \<or> starts_with base sn)"

definition seed_variants :: "libc_sym_entry list \<Rightarrow> string \<Rightarrow> bfs_state \<Rightarrow> bfs_state option" where
  "seed_variants syms imp vq =
     (let base = dropWhile (\<lambda>c. c = CHR ''_'') imp in
      if length base < 2 then Some vq
      else fold_option (\<lambda>s vq. if variant_of base (le_name (syms ! s)) then enqueue s vq else Some vq)
             [0..<length syms] vq)"

definition seeds :: "libc_sym_entry list \<Rightarrow> string list \<Rightarrow> bfs_state option" where
  "seeds syms imports =
     (case fold_option (seed_name syms) (imports @ essential_seeds) (replicate (length syms) False, []) of
        None \<Rightarrow> None
      | Some vq \<Rightarrow> fold_option (seed_variants syms) imports vq)"

text \<open>
  The targets of the \<open>E8\<close> and \<open>E9\<close> opcodes with a complete displacement in the bytes at \<open>a\<close>.
\<close>

fun call_targets :: "u64 \<Rightarrow> u8 list \<Rightarrow> u64 list" where
  "call_targets a [] = []"
| "call_targets a (b # bs) =
     (if length bs < 4 then []
      else if b = 0xE8 \<or> b = 0xE9 then (a + 5 + scast (un_le32 bs)) # call_targets (a + 1) bs
      else call_targets (a + 1) bs)"

definition callees :: "libc_sym_entry list \<Rightarrow> exec_section list \<Rightarrow> nat \<Rightarrow> nat list" where
  "callees syms secs idx =
     (let e = syms ! idx in
      case get_bytes_at secs (le_addr e) (unat (le_size e)) of
        None \<Rightarrow> []
      | Some bs \<Rightarrow>
          if length bs < 5 then []
          else List.map_filter (find_sym_at_addr syms) (call_targets (le_addr e) bs))"

lemma enqueue_length: "enqueue i vq = Some vq' \<Longrightarrow> length (snd vq') \<le> max MAX_REACHABLE (length (snd vq))"
  by (cases vq) (auto simp: enqueue_def queue_store_def split: if_splits)

lemma fold_enqueue_length:
  "fold_option enqueue is vq = Some vq' \<Longrightarrow> length (snd vq') \<le> max MAX_REACHABLE (length (snd vq))"
  by (induction "is" arbitrary: vq) (fastforce split: option.splits dest: enqueue_length)+

function bfs ::
  "libc_sym_entry list \<Rightarrow> exec_section list \<Rightarrow> bfs_state \<Rightarrow> nat \<Rightarrow> nat \<Rightarrow> nat \<Rightarrow> (bfs_state \<times> nat) option" where
  "bfs syms secs vq q_head current_depth depth_boundary =
     (if q_head < length (snd vq) \<and> current_depth < CALLGRAPH_DEPTH_LIMIT then
        (let sym_idx = snd vq ! q_head; deeper = (q_head + 1 > depth_boundary) in
         if sym_idx \<ge> length syms then None
         else
           (case fold_option enqueue (callees syms secs sym_idx) vq of
              None \<Rightarrow> None
            | Some vq' \<Rightarrow>
                bfs syms secs vq' (q_head + 1)
                  (if deeper then current_depth + 1 else current_depth)
                  (if deeper then length (snd vq) else depth_boundary)))
      else Some (vq, q_head))"
  by pat_completeness auto
termination
  by (relation "measure (\<lambda>(syms, secs, vq, q_head, d, b). max MAX_REACHABLE (length (snd vq)) - q_head)")
    (auto dest!: fold_enqueue_length simp: max_def split: if_splits)

declare bfs.simps [simp del]

text \<open>The \<open>syscall\<close> opcodes of the queued functions, at most \<open>room\<close> of them.\<close>

fun collect_sites :: "libc_sym_entry list \<Rightarrow> exec_section list \<Rightarrow> nat \<Rightarrow> nat list \<Rightarrow> u64 list option" where
  "collect_sites syms secs room [] = Some []"
| "collect_sites syms secs room (i # is) =
     (if room = 0 then Some []
      else if i \<ge> length syms then None
      else
        (case get_bytes_at secs (le_addr (syms ! i)) (unat (le_size (syms ! i))) of
           None \<Rightarrow> collect_sites syms secs room is
         | Some bs \<Rightarrow>
             (case scan_opcodes room (length bs) (le_addr (syms ! i)) bs of
                None \<Rightarrow> None
              | Some found \<Rightarrow>
                  map_option (append found) (collect_sites syms secs (room - length found) is))))"

text \<open>The sites and what was stored through \<open>reachable_count_out\<close>.\<close>

definition trace_libc_callgraph ::
  "(nat \<Rightarrow> bool) \<Rightarrow> (string \<Rightarrow> elf_open) \<Rightarrow> string \<Rightarrow> libc_sym_entry list \<Rightarrow> string list \<Rightarrow> nat \<Rightarrow>
     (u64 list \<times> nat option) option" where
  "trace_libc_callgraph alloc_ok opened libc_path syms imports max_sites =
     (let secs = load_exec_sections alloc_ok opened libc_path 16 in
      if secs = [] \<or> \<not> alloc_ok (4 * MAX_REACHABLE) \<or> \<not> alloc_ok (length syms) then Some ([], None)
      else
        (case seeds syms imports of
           None \<Rightarrow> None
         | Some seeded \<Rightarrow>
             (case bfs syms secs seeded 0 0 (length (snd seeded)) of
                None \<Rightarrow> None
              | Some ((visited, queue), q_head) \<Rightarrow>
                  map_option (\<lambda>sites. (sites, Some (length queue))) (collect_sites syms secs max_sites queue))))"

subsection \<open>The table is sorted\<close>

definition wf_symtab :: "nat \<Rightarrow> libc_sym_entry list \<Rightarrow> bool" where
  "wf_symtab n t \<longleftrightarrow> sorted_wrt (\<lambda>a b. sym_addr_cmp a b = - 1) t \<and> length t \<le> n \<and>
     (\<forall>e \<in> set t. le_addr e \<noteq> 0 \<and> le_size e \<noteq> 0 \<and> le_name e \<noteq> [] \<and> length (le_name e) \<le> 127)"

definition raw_table :: "nat \<Rightarrow> libc_sym_entry list \<Rightarrow> bool" where
  "raw_table n t \<longleftrightarrow> distinct (map le_addr t) \<and> length t \<le> n \<and>
     (\<forall>e \<in> set t. le_addr e \<noteq> 0 \<and> le_size e \<noteq> 0 \<and> le_name e \<noteq> [] \<and> length (le_name e) \<le> 127)"

lemma add_symbols_raw: "raw_table n out \<Longrightarrow> raw_table n (add_symbols n sys out)"
proof (induction n sys out rule: add_symbols.induct)
  case (2 max_n sy sys out)
  show ?case
  proof (cases "length out \<ge> max_n")
    case False
    have "raw_table max_n (if st_type sy \<noteq> STT_FUNC \<or> st_value sy = 0 then out
           else
             (case st_name sy of
                None \<Rightarrow> out
              | Some name \<Rightarrow>
                  if name = [] \<or> list_ex (\<lambda>e. le_addr e = st_value sy) out then out
                  else out @ [\<lparr>le_addr = st_value sy,
                               le_size = (if st_size sy = 0 then DEFAULT_FUNC_SIZE else st_size sy),
                               le_name = take 127 name\<rparr>]))"
      using 2(2) False
      by (auto simp: raw_table_def list_ex_iff DEFAULT_FUNC_SIZE_def split: option.splits)
    from 2(1) [OF False this] False show ?thesis by simp
  qed (use 2(2) in simp)
qed simp

lemma symtab_sections_raw:
  "raw_table n out \<Longrightarrow> symtab_sections n scs out = Some t \<Longrightarrow> raw_table n t"
  by (induction scs arbitrary: out) (auto split: if_splits option.splits intro: add_symbols_raw)

lemma sort_raw_table:
  assumes "raw_table n t"
  shows "wf_symtab n (sort_key le_addr t)"
proof -
  have "sorted_wrt (<) (map le_addr (sort_key le_addr t))"
    using assms by (simp add: strict_sorted_iff raw_table_def distinct_map)
  then show ?thesis
    using assms by (auto simp: wf_symtab_def raw_table_def sorted_wrt_map sym_addr_cmp_def
        elim: sorted_wrt_mono_rel [rotated])
qed

subsection \<open>The search finds the symbol around an address\<close>

lemma bsearch_sound:
  "bsearch syms addr lo hi = Some i \<Longrightarrow> 0 \<le> lo \<Longrightarrow> hi < int (length syms) \<Longrightarrow>
     i < length syms \<and> sym_covers (syms ! i) addr"
proof (induction syms addr lo hi rule: bsearch.induct)
  case (1 syms addr lo hi)
  let ?mid = "(lo + hi) div 2" and ?m = "syms ! nat ((lo + hi) div 2)"
  have range: "lo \<le> hi" using 1(3) by (subst (asm) bsearch.simps) (simp split: if_splits)
  then have mid: "lo \<le> ?mid" "?mid \<le> hi" by simp_all
  consider (below) "addr < le_addr ?m" | (above) "\<not> addr < le_addr ?m" "addr \<ge> le_addr ?m + le_size ?m"
    | (here) "\<not> addr < le_addr ?m" "\<not> addr \<ge> le_addr ?m + le_size ?m" by blast
  then show ?case
  proof cases
    case below
    then have "bsearch syms addr lo (?mid - 1) = Some i"
      using 1(3) range by (subst (asm) bsearch.simps) (simp add: Let_def)
    then show ?thesis using 1(1) [OF range refl refl below] 1(4,5) mid by simp
  next
    case above
    then have "bsearch syms addr (?mid + 1) hi = Some i"
      using 1(3) range by (subst (asm) bsearch.simps) (simp add: Let_def)
    then show ?thesis using 1(2) [OF range refl refl above] 1(4,5) mid by simp
  next
    case here
    then have "i = nat ?mid"
      using 1(3) range by (subst (asm) bsearch.simps) (simp add: Let_def)
    then show ?thesis using here mid 1(4,5) by (auto simp: sym_covers_def)
  qed
qed

lemma back_scan_sound:
  "back_scan syms addr n = Some i \<Longrightarrow> n \<le> length syms \<Longrightarrow> i < length syms \<and> sym_covers (syms ! i) addr"
  by (induction n) (auto split: if_splits)

lemma find_sym_at_addr_sound:
  "find_sym_at_addr syms addr = Some i \<Longrightarrow> i < length syms \<and> sym_covers (syms ! i) addr"
  unfolding find_sym_at_addr_def
  by (auto split: option.splits dest!: bsearch_sound back_scan_sound)

text \<open>Symbols that do not overlap, in address order.\<close>

definition disjoint_symtab :: "libc_sym_entry list \<Rightarrow> bool" where
  "disjoint_symtab syms \<longleftrightarrow>
     (\<forall>e \<in> set syms. unat (le_addr e) + unat (le_size e) < 2 ^ 64) \<and>
     sorted_wrt (\<lambda>a b. unat (le_addr a) + unat (le_size a) \<le> unat (le_addr b)) syms"

lemma sym_covers_nat:
  "unat (le_addr e) + unat (le_size e) < 2 ^ 64 \<Longrightarrow>
     sym_covers e addr \<longleftrightarrow> unat (le_addr e) \<le> unat addr \<and> unat addr < unat (le_addr e) + unat (le_size e)"
  by (simp add: sym_covers_def word_le_nat_alt word_less_nat_alt unat_word_ariths(1))

lemma end_nat:
  "unat (le_addr e) + unat (le_size e) < 2 ^ 64 \<Longrightarrow>
     unat (le_addr e + le_size e) = unat (le_addr e) + unat (le_size e)"
  by (simp add: unat_word_ariths(1))

lemma bsearch_complete:
  assumes "disjoint_symtab syms" and "k < length syms" and "sym_covers (syms ! k) addr"
  shows "0 \<le> lo \<Longrightarrow> hi < int (length syms) \<Longrightarrow> lo \<le> int k \<Longrightarrow> int k \<le> hi \<Longrightarrow> bsearch syms addr lo hi = Some k"
proof (induction "nat (hi + 1 - lo)" arbitrary: lo hi rule: less_induct)
  case less
  let ?mid = "(lo + hi) div 2" and ?m = "syms ! nat ((lo + hi) div 2)"
  have mid: "lo \<le> ?mid" "?mid \<le> hi" "nat ?mid < length syms" using less.prems by simp_all
  have ok: "unat (le_addr (syms ! i)) + unat (le_size (syms ! i)) < 2 ^ 64" if "i < length syms" for i
    using assms(1) that by (simp add: disjoint_symtab_def)
  have order: "unat (le_addr (syms ! i)) + unat (le_size (syms ! i)) \<le> unat (le_addr (syms ! j))"
    if "i < j" "j < length syms" for i j
    using assms(1) that by (simp add: disjoint_symtab_def sorted_wrt_iff_nth_less)
  note in_k = assms(3) [unfolded sym_covers_nat [OF ok [OF assms(2)]]]
  note m_end = end_nat [OF ok [OF mid(3)]]
  consider (below) "k < nat ?mid" | (above) "nat ?mid < k" | (here) "k = nat ?mid" by linarith
  then show ?case
  proof cases
    case below
    then have "addr < le_addr ?m" using order [OF below mid(3)] in_k by (simp add: word_less_nat_alt)
    moreover have "bsearch syms addr lo (?mid - 1) = Some k"
      using less.prems mid below by (intro less.hyps) linarith+
    ultimately show ?thesis using mid by (subst bsearch.simps) (simp add: Let_def)
  next
    case above
    then have "le_addr ?m + le_size ?m \<le> addr"
      using order [OF above assms(2)] in_k by (simp add: word_le_nat_alt m_end)
    moreover have "\<not> addr < le_addr ?m"
      using order [OF above assms(2)] in_k by (simp add: word_less_nat_alt)
    moreover have "bsearch syms addr (?mid + 1) hi = Some k"
      using less.prems mid above by (intro less.hyps) linarith+
    ultimately show ?thesis using mid by (subst bsearch.simps) (simp add: Let_def)
  next
    case here
    then have "\<not> addr < le_addr ?m" "\<not> le_addr ?m + le_size ?m \<le> addr"
      using assms(3) by (auto simp: sym_covers_def)
    then show ?thesis using mid here by (subst bsearch.simps) (simp add: Let_def)
  qed
qed

lemma find_sym_at_addr_complete:
  assumes "disjoint_symtab syms" and "k < length syms" and "sym_covers (syms ! k) addr"
  shows "find_sym_at_addr syms addr = Some k"
  using bsearch_complete [OF assms, of 0 "int (length syms) - 1"] assms(2) by (simp add: find_sym_at_addr_def)

subsection \<open>The search reaches what calls reach\<close>

text \<open>
  The well-formedness of the two arrays: no index is queued twice, the visited marks are those of the
  queue, and neither array is indexed out of bounds.
\<close>

definition bfs_inv :: "nat \<Rightarrow> bfs_state \<Rightarrow> bool" where
  "bfs_inv n vq \<longleftrightarrow>
     (case vq of (visited, queue) \<Rightarrow>
        length visited = n \<and> distinct queue \<and> set queue \<subseteq> {..<n} \<and> length queue \<le> MAX_REACHABLE \<and>
        (\<forall>i<n. visited ! i \<longleftrightarrow> i \<in> set queue))"

text \<open>What enqueuing a list of indices may do: the queue grows by some of them, and by all there is room for.\<close>

definition bfs_grows :: "nat list \<Rightarrow> bfs_state \<Rightarrow> bfs_state \<Rightarrow> bool" where
  "bfs_grows is vq vq' \<longleftrightarrow> (\<exists>ext. snd vq' = snd vq @ ext \<and> set ext \<subseteq> set is) \<and>
     (\<forall>i \<in> set is. i \<in> set (snd vq') \<or> length (snd vq') = MAX_REACHABLE)"

lemma bfs_inv_enqueue:
  assumes "bfs_inv n vq" and "i < n"
  shows "\<exists>vq'. enqueue i vq = Some vq' \<and> bfs_inv n vq' \<and> bfs_grows [i] vq vq'"
proof -
  obtain v q where vq: "vq = (v, q)" by (cases vq)
  note inv = assms(1) [unfolded bfs_inv_def vq prod.case]
  show ?thesis
  proof (cases "v ! i \<or> length q = MAX_REACHABLE")
    case True
    then have "enqueue i vq = Some vq" using inv assms(2) by (auto simp: enqueue_def vq)
    then show ?thesis using assms inv True by (auto simp: vq bfs_grows_def)
  next
    case False
    then have "enqueue i vq = Some (v[i := True], q @ [i])"
      using inv assms(2) by (auto simp: enqueue_def queue_store_def vq)
    moreover have "bfs_inv n (v[i := True], q @ [i])"
      using inv assms(2) False by (auto simp: bfs_inv_def nth_list_update)
    ultimately show ?thesis by (auto simp: vq bfs_grows_def)
  qed
qed

lemma bfs_inv_fold:
  assumes "bfs_inv n vq" and "set is \<subseteq> {..<n}"
  shows "\<exists>vq'. fold_option enqueue is vq = Some vq' \<and> bfs_inv n vq' \<and> bfs_grows is vq vq'"
  using assms
proof (induction "is" arbitrary: vq)
  case Nil
  then show ?case by (simp add: bfs_grows_def)
next
  case (Cons i "is")
  then obtain vq1 where e: "enqueue i vq = Some vq1" "bfs_inv n vq1" "bfs_grows [i] vq vq1"
    using bfs_inv_enqueue [of n vq i] by auto
  obtain vq2 where IH: "fold_option enqueue is vq1 = Some vq2" "bfs_inv n vq2" "bfs_grows is vq1 vq2"
    using Cons.IH [OF e(2)] Cons.prems(2) by auto
  obtain x where x: "snd vq1 = snd vq @ x" "set x \<subseteq> {i}" using e(3) by (auto simp: bfs_grows_def)
  obtain y where y: "snd vq2 = snd vq1 @ y" "set y \<subseteq> set is" using IH(3) by (auto simp: bfs_grows_def)
  have "length (snd vq2) \<le> MAX_REACHABLE" using IH(2) by (auto simp: bfs_inv_def)
  then have "i \<in> set (snd vq2) \<or> length (snd vq2) = MAX_REACHABLE"
    using e(3) y(1) by (auto simp: bfs_grows_def)
  moreover have "\<exists>ext. snd vq2 = snd vq @ ext \<and> set ext \<subseteq> set (i # is)"
    using x y by (intro exI [of _ "x @ y"]) auto
  ultimately have "bfs_grows (i # is) vq vq2" using IH(3) by (auto simp: bfs_grows_def)
  then show ?case using e(1) IH(1,2) by simp
qed

text \<open>The functions that calls reach from a set, and those that at most \<open>d\<close> calls reach.\<close>

inductive cg_reach :: "libc_sym_entry list \<Rightarrow> exec_section list \<Rightarrow> nat set \<Rightarrow> nat \<Rightarrow> bool"
  for syms secs S where
  seed: "i \<in> S \<Longrightarrow> cg_reach syms secs S i"
| call: "cg_reach syms secs S i \<Longrightarrow> j \<in> set (callees syms secs i) \<Longrightarrow> cg_reach syms secs S j"

inductive cg_within :: "libc_sym_entry list \<Rightarrow> exec_section list \<Rightarrow> nat set \<Rightarrow> nat \<Rightarrow> nat \<Rightarrow> bool"
  for syms secs S where
  seed: "i \<in> S \<Longrightarrow> cg_within syms secs S d i"
| call: "cg_within syms secs S d i \<Longrightarrow> j \<in> set (callees syms secs i) \<Longrightarrow> cg_within syms secs S (Suc d) j"

inductive_cases cg_within_SucE: "cg_within syms secs S (Suc d) i"

inductive_cases cg_within_0E: "cg_within syms secs S 0 i"

lemma cg_within_mono: "cg_within syms secs S d i \<Longrightarrow> d \<le> d' \<Longrightarrow> cg_within syms secs S d' i"
proof (induction arbitrary: d' rule: cg_within.induct)
  case (call d i j)
  then show ?case by (cases d') (auto intro: cg_within.call)
qed (rule cg_within.seed)

lemma cg_within_reach: "cg_within syms secs S d i \<Longrightarrow> cg_reach syms secs S i"
  by (induction rule: cg_within.induct) (auto intro: cg_reach.intros)

lemma callees_bound: "set (callees syms secs i) \<subseteq> {..<length syms}"
  by (auto simp: callees_def Let_def map_filter_def dest: find_sym_at_addr_sound split: option.splits)

definition bfs_ok :: "libc_sym_entry list \<Rightarrow> exec_section list \<Rightarrow> nat set \<Rightarrow> bfs_state \<Rightarrow> nat \<Rightarrow> bool" where
  "bfs_ok syms secs S vq h \<longleftrightarrow>
     bfs_inv (length syms) vq \<and> h \<le> length (snd vq) \<and> S \<subseteq> set (snd vq) \<and>
     (\<forall>i \<in> set (snd vq). cg_reach syms secs S i) \<and>
     (\<forall>i \<in> set (take h (snd vq)). \<forall>j \<in> set (callees syms secs i).
        j \<in> set (snd vq) \<or> length (snd vq) = MAX_REACHABLE)"

lemma bfs_ok_step:
  assumes "bfs_ok syms secs S vq h" and "h < length (snd vq)"
  shows "\<exists>vq'. fold_option enqueue (callees syms secs (snd vq ! h)) vq = Some vq' \<and>
    bfs_ok syms secs S vq' (h + 1) \<and> (\<exists>ext. snd vq' = snd vq @ ext)"
proof -
  let ?q = "snd vq" and ?cs = "callees syms secs (snd vq ! h)"
  note ok = assms(1) [unfolded bfs_ok_def]
  have inv: "bfs_inv (length syms) vq" using ok by blast
  obtain vq' where f: "fold_option enqueue ?cs vq = Some vq'" "bfs_inv (length syms) vq'" "bfs_grows ?cs vq vq'"
    using bfs_inv_fold [OF inv callees_bound] by blast
  obtain ext where ext: "snd vq' = ?q @ ext" "set ext \<subseteq> set ?cs" using f(3) by (auto simp: bfs_grows_def)
  have max': "length (snd vq') \<le> MAX_REACHABLE" using f(2) by (auto simp: bfs_inv_def)
  have here: "cg_reach syms secs S (?q ! h)" using ok assms(2) by auto
  have "cg_reach syms secs S i" if "i \<in> set (snd vq')" for i
    using that ext ok cg_reach.call [OF here] by auto
  moreover have "j \<in> set (snd vq') \<or> length (snd vq') = MAX_REACHABLE"
    if "i \<in> set (take (h + 1) (snd vq'))" "j \<in> set (callees syms secs i)" for i j
  proof (cases "i = ?q ! h")
    case True
    then show ?thesis using that(2) f(3) by (auto simp: bfs_grows_def)
  next
    case False
    have "take (h + 1) (snd vq') = take h ?q @ [?q ! h]" using assms(2) ext(1) by (simp add: take_Suc_conv_app_nth)
    then have "i \<in> set (take h ?q)" using that(1) False by simp
    then have "j \<in> set ?q \<or> length ?q = MAX_REACHABLE" using that(2) ok by blast
    then show ?thesis using ext(1) max' by auto
  qed
  ultimately have "bfs_ok syms secs S vq' (h + 1)"
    unfolding bfs_ok_def using f(2) ok assms(2) ext(1) by auto
  then show ?thesis using f(1) ext(1) by blast
qed

text \<open>
  The depth counter: \<open>b\<close> ends the level that is being expanded, and unless the queue is full
  everything within \<open>d\<close> calls lies before it.
\<close>

definition bfs_levels ::
  "libc_sym_entry list \<Rightarrow> exec_section list \<Rightarrow> nat set \<Rightarrow> bfs_state \<Rightarrow> nat \<Rightarrow> nat \<Rightarrow> nat \<Rightarrow> bool" where
  "bfs_levels syms secs S vq h d b \<longleftrightarrow> h \<le> b \<and> b \<le> length (snd vq) \<and>
     (length (snd vq) < MAX_REACHABLE \<longrightarrow> {i. cg_within syms secs S d i} \<subseteq> set (take b (snd vq)))"

lemma bfs_levels_step:
  assumes "bfs_ok syms secs S vq h" and "bfs_levels syms secs S vq h d b" and "h < length (snd vq)"
    and "snd vq' = snd vq @ ext"
  shows "bfs_levels syms secs S vq' (h + 1) (if h + 1 > b then d + 1 else d)
    (if h + 1 > b then length (snd vq) else b)"
proof (cases "h + 1 > b")
  case True
  then have "h = b" using assms(2) by (simp add: bfs_levels_def)
  have "i \<in> set (snd vq)" if "cg_within syms secs S (Suc d) i" and room: "length (snd vq') < MAX_REACHABLE" for i
    using that(1)
  proof (rule cg_within_SucE)
    assume "i \<in> S" then show ?thesis using assms(1) by (auto simp: bfs_ok_def)
  next
    fix j assume "cg_within syms secs S d j" "i \<in> set (callees syms secs j)"
    moreover have "{i. cg_within syms secs S d i} \<subseteq> set (take h (snd vq))"
      using assms(2,4) room \<open>h = b\<close> by (auto simp: bfs_levels_def)
    ultimately show ?thesis using assms(1,4) room by (auto simp: bfs_ok_def)
  qed
  then show ?thesis using True assms(3,4) by (auto simp: bfs_levels_def)
next
  case False
  then show ?thesis using assms(2,4) by (auto simp: bfs_levels_def)
qed

lemma bfs_drained:
  assumes "bfs_ok syms secs S vq h" and "h = length (snd vq)" and "length (snd vq) < MAX_REACHABLE"
  shows "set (snd vq) = {i. cg_reach syms secs S i}"
proof
  show "set (snd vq) \<subseteq> {i. cg_reach syms secs S i}" using assms(1) by (auto simp: bfs_ok_def)
  have "i \<in> set (snd vq)" if "cg_reach syms secs S i" for i
    using that assms by induction (auto simp: bfs_ok_def)
  then show "{i. cg_reach syms secs S i} \<subseteq> set (snd vq)" by blast
qed

lemma bfs_finds:
  assumes "bfs_ok syms secs S vq h" and "bfs_levels syms secs S vq h d b"
  shows "\<exists>vq' h'. bfs syms secs vq h d b = Some (vq', h') \<and> bfs_ok syms secs S vq' h' \<and>
    (length (snd vq') < MAX_REACHABLE \<longrightarrow>
       (\<forall>i. cg_within syms secs S CALLGRAPH_DEPTH_LIMIT i \<longrightarrow> i \<in> set (snd vq')))"
  using assms
proof (induction syms secs vq h d b rule: bfs.induct)
  case (1 syms secs vq h d b)
  show ?case
  proof (cases "h < length (snd vq) \<and> d < CALLGRAPH_DEPTH_LIMIT")
    case True
    then obtain vq1 ext where f: "fold_option enqueue (callees syms secs (snd vq ! h)) vq = Some vq1"
      "bfs_ok syms secs S vq1 (h + 1)" "snd vq1 = snd vq @ ext" using bfs_ok_step [OF 1(2)] by blast
    have "snd vq ! h \<in> set (snd vq)" using True by simp
    then have idx: "\<not> snd vq ! h \<ge> length syms"
      using 1(2) by (cases vq) (fastforce simp: bfs_ok_def bfs_inv_def)
    have "bfs syms secs vq h d b = bfs syms secs vq1 (h + 1) (if h + 1 > b then d + 1 else d)
        (if h + 1 > b then length (snd vq) else b)"
      using True idx f(1) by (subst bfs.simps) (simp add: Let_def)
    then show ?thesis
      using 1(1) [OF True refl refl idx f(1) f(2) bfs_levels_step [OF 1(2,3) _ f(3)]] True by simp
  next
    case False
    then have e: "bfs syms secs vq h d b = Some (vq, h)" by (subst bfs.simps) auto
    have "i \<in> set (snd vq)" if "length (snd vq) < MAX_REACHABLE" "cg_within syms secs S CALLGRAPH_DEPTH_LIMIT i" for i
    proof (cases "h < length (snd vq)")
      case True
      then have "cg_within syms secs S d i" using False cg_within_mono [OF that(2)] by simp
      then show ?thesis using 1(3) that(1) by (auto simp: bfs_levels_def dest: in_set_takeD)
    next
      case end_of_queue: False
      then have "h = length (snd vq)" using 1(2) by (simp add: bfs_ok_def)
      from bfs_drained [OF 1(2) this that(1)] cg_within_reach [OF that(2)] show ?thesis by simp
    qed
    then show ?thesis using e 1(2) by blast
  qed
qed

subsection \<open>Seeds and sites\<close>

lemma find_sym_from_bound: "find_sym_from k es name = Some i \<Longrightarrow> k \<le> i \<and> i < k + length es"
  by (induction k es name rule: find_sym_from.induct) (auto split: if_splits)

lemma seed_name_inv:
  assumes "bfs_inv (length syms) vq"
  shows "\<exists>vq'. seed_name syms name vq = Some vq' \<and> bfs_inv (length syms) vq'"
proof (cases "find_sym_by_name syms name")
  case (Some i)
  then have "i < length syms" using find_sym_from_bound [of 0 syms name i] by (simp add: find_sym_by_name_def)
  from bfs_inv_enqueue [OF assms this] Some show ?thesis by (auto simp only: seed_name_def option.case)
qed (use assms in \<open>simp add: seed_name_def\<close>)

lemma seed_variants_inv:
  assumes "bfs_inv (length syms) vq"
  shows "\<exists>vq'. seed_variants syms imp vq = Some vq' \<and> bfs_inv (length syms) vq'"
proof -
  let ?f = "\<lambda>base s vq. if variant_of base (le_name (syms ! s)) then enqueue s vq else Some vq"
  have step: "\<exists>vq'. ?f base s vq = Some vq' \<and> bfs_inv (length syms) vq'"
    if "s \<in> set [0..<length syms]" "bfs_inv (length syms) vq" for base s vq
    using bfs_inv_enqueue [OF that(2), of s] that by (cases "variant_of base (le_name (syms ! s))") auto
  have "\<exists>vq'. fold_option (?f base) [0..<length syms] vq = Some vq' \<and> bfs_inv (length syms) vq'" for base
    by (rule fold_option_inv [OF step assms])
  then show ?thesis using assms by (simp only: seed_variants_def Let_def split: if_split) blast
qed

lemma seeds_inv: "\<exists>vq. seeds syms imps = Some vq \<and> bfs_inv (length syms) vq"
proof -
  have "\<exists>vq. fold_option (seed_name syms) (imps @ essential_seeds) (replicate (length syms) False, []) = Some vq \<and>
      bfs_inv (length syms) vq"
    by (rule fold_option_inv, erule seed_name_inv) (simp add: bfs_inv_def)
  then obtain vq where vq: "fold_option (seed_name syms) (imps @ essential_seeds) (replicate (length syms) False, []) = Some vq"
    "bfs_inv (length syms) vq" by blast
  have "\<exists>vq'. fold_option (seed_variants syms) imps vq = Some vq' \<and> bfs_inv (length syms) vq'"
    by (rule fold_option_inv, erule seed_variants_inv) (fact vq(2))
  then show ?thesis by (simp only: seeds_def vq(1) option.case)
qed

text \<open>The search from the seeds never faults.\<close>

lemma search_from_seeds:
  "\<exists>sd vq h. seeds syms imps = Some sd \<and> bfs_inv (length syms) sd \<and>
     bfs syms secs sd 0 0 (length (snd sd)) = Some (vq, h) \<and> bfs_ok syms secs (set (snd sd)) vq h \<and>
     (length (snd vq) < MAX_REACHABLE \<longrightarrow>
       (\<forall>i. cg_within syms secs (set (snd sd)) CALLGRAPH_DEPTH_LIMIT i \<longrightarrow> i \<in> set (snd vq)))"
proof -
  obtain sd where sd: "seeds syms imps = Some sd" "bfs_inv (length syms) sd" using seeds_inv by blast
  have "bfs_ok syms secs (set (snd sd)) sd 0" by (simp add: bfs_ok_def sd(2) cg_reach.seed)
  moreover have "bfs_levels syms secs (set (snd sd)) sd 0 0 (length (snd sd))"
    by (auto simp: bfs_levels_def elim: cg_within_0E)
  ultimately show ?thesis using bfs_finds [of syms secs "set (snd sd)" sd 0 0 "length (snd sd)"] sd by blast
qed

definition fun_sites :: "libc_sym_entry list \<Rightarrow> exec_section list \<Rightarrow> nat \<Rightarrow> u64 list" where
  "fun_sites syms secs i =
     (case get_bytes_at secs (le_addr (syms ! i)) (unat (le_size (syms ! i))) of
        None \<Rightarrow> [] | Some bs \<Rightarrow> opcodes_at (le_addr (syms ! i)) bs)"

lemma collect_sites_eq:
  "set is \<subseteq> {..<length syms} \<Longrightarrow>
     collect_sites syms secs room is = Some (take room (concat (map (fun_sites syms secs) is)))"
  by (induction "is" arbitrary: room)
    (auto simp: fun_sites_def scan_opcodes_eq min_def split: option.splits)

lemma trace_eq:
  assumes "seeds syms imps = Some sd" and "load_exec_sections alloc_ok opened path 16 = secs" and "secs \<noteq> []"
    and "alloc_ok (4 * MAX_REACHABLE)" and "alloc_ok (length syms)"
    and "bfs syms secs sd 0 0 (length (snd sd)) = Some (vq, h)" and "bfs_ok syms secs S vq h"
  shows "trace_libc_callgraph alloc_ok opened path syms imps n =
    Some (take n (concat (map (fun_sites syms secs) (snd vq))), Some (length (snd vq)))"
proof -
  obtain v q where vq: "vq = (v, q)" by (cases vq)
  have "set q \<subseteq> {..<length syms}" using assms(7) by (simp add: bfs_ok_def bfs_inv_def vq)
  then show ?thesis using assms(1-6) by (simp add: trace_libc_callgraph_def collect_sites_eq vq)
qed

subsection \<open>An example library\<close>

text \<open>
  Two functions: \<open>puts\<close> at \<open>0x1000\<close> calls \<open>do_write\<close> at \<open>0x1010\<close>, which holds a system call.
\<close>

definition ex_syms :: "libc_sym_entry list" where
  "ex_syms = [\<lparr>le_addr = 0x1000, le_size = 6, le_name = ''puts''\<rparr>,
     \<lparr>le_addr = 0x1010, le_size = 3, le_name = ''do_write''\<rparr>]"

definition ex_code :: "u8 list" where
  "ex_code = [0xE8, 0x0B, 0, 0, 0, 0xC3] @ replicate 10 0x90 @ [0x0F, 0x05, 0xC3]"

definition ex_lib :: elf_view where
  "ex_lib = \<lparr>e_phdrs = [], e_shstrndx_ok = True, e_scns = [\<lparr>sh_name = Some ''.text'', sh_type = SHT_PROGBITS,
     sh_flags = 6, sh_addr = 0x1000, sh_size = 19, sh_entsize = 0,
     scn_data = Some (Data ex_code),
     scn_sym = undefined\<rparr>]\<rparr>"

lemma ex_sections:
  "load_exec_sections (\<lambda>_. True) (\<lambda>_. ElfOpened ex_lib) ''libc.so.6'' 16 =
     [\<lparr>xs_vaddr = 0x1000, xs_data = ex_code\<rparr>]"
  by (simp add: load_exec_sections_def ex_lib_def is_exec_progbits_def SHF_EXECINSTR_def)
    (simp add: ex_code_def)

lemma ex_seeds: "seeds ex_syms [''puts''] = Some ([True, False], [0])"
  by (simp add: seeds_def essential_seeds_def seed_name_def find_sym_by_name_def ex_syms_def seed_variants_def
      enqueue_def queue_store_def MAX_REACHABLE_def variant_of_def contains_def)

lemma ex_callees:
  "callees ex_syms [\<lparr>xs_vaddr = 0x1000, xs_data = ex_code\<rparr>] 0 = [Suc 0]"
  "callees ex_syms [\<lparr>xs_vaddr = 0x1000, xs_data = ex_code\<rparr>] (Suc 0) = []"
  by (simp_all add: callees_def ex_syms_def ex_code_def Let_def un_le32_def find_sym_at_addr_def bsearch.simps
      map_filter_def)

lemma ex_fun_sites:
  "fun_sites ex_syms [\<lparr>xs_vaddr = 0x1000, xs_data = ex_code\<rparr>] 0 = []"
  "fun_sites ex_syms [\<lparr>xs_vaddr = 0x1000, xs_data = ex_code\<rparr>] (Suc 0) = [0x1010]"
  by (simp_all add: fun_sites_def ex_syms_def ex_code_def)

lemma ex_length: "length ex_syms = 2"
  by (simp add: ex_syms_def)

lemma ex_bfs:
  "bfs ex_syms [\<lparr>xs_vaddr = 0x1000, xs_data = ex_code\<rparr>] ([True, False], [0]) 0 0 (Suc 0) =
     Some (([True, True], [0, Suc 0]), 2)"
  by (simp add: bfs.simps CALLGRAPH_DEPTH_LIMIT_def ex_callees enqueue_def queue_store_def MAX_REACHABLE_def ex_length)

lemma ex_trace:
  "trace_libc_callgraph (\<lambda>_. True) (\<lambda>_. ElfOpened ex_lib) ''libc.so.6'' ex_syms [''puts''] 2048 = Some ([0x1010], Some 2)"
  by (simp add: trace_libc_callgraph_def ex_sections ex_seeds ex_bfs collect_sites_eq ex_length ex_fun_sites del: collect_sites.simps)

subsection \<open>Properties\<close>

text \<open>
  C20: The symbol table that is built is strictly sorted by address, fits the array and holds only
  named functions with a nonzero address and size, whatever the file.
\<close>

theorem symtab_well_formed:
  assumes "build_libc_symtab opened path n = Some t"
  shows "wf_symtab n t"
proof (cases "opened path")
  case (ElfOpened e)
  then obtain r where "symtab_sections n (e_scns e) [] = Some r" "t = sort_key le_addr r"
    using assms by (auto simp: build_libc_symtab_def)
  then show ?thesis
    using symtab_sections_raw [of n "[]" "e_scns e" r] by (simp add: sort_raw_table raw_table_def)
qed (use assms in \<open>simp_all add: build_libc_symtab_def wf_symtab_def\<close>)

theorem symtab_well_formed_witness:
  "wf_symtab 8192 [\<lparr>le_addr = 0x401000, le_size = 3, le_name = ''write''\<rparr>]"
proof (rule symtab_well_formed [of "\<lambda>_. ElfOpened ex_elf" "''libc.so.6''"])
  show "build_libc_symtab (\<lambda>_. ElfOpened ex_elf) ''libc.so.6'' 8192 =
      Some [\<lparr>le_addr = 0x401000, le_size = 3, le_name = ''write''\<rparr>]"
    by (simp add: build_libc_symtab_def ex_elf_defs scn_syms_def c_int_def SHT_PROGBITS_def
        SHT_SYMTAB_def SHT_DYNSYM_def STT_FUNC_def)
qed

text \<open>
  C14: The address search agrees with a linear search on tables whose symbols do not overlap: it
  returns an index exactly when that symbol's range holds the address.
\<close>

theorem find_sym_at_addr_correct:
  assumes "disjoint_symtab syms"
  shows "find_sym_at_addr syms addr = Some i \<longleftrightarrow> i < length syms \<and> sym_covers (syms ! i) addr"
  using find_sym_at_addr_sound find_sym_at_addr_complete [OF assms] by blast

theorem find_sym_at_addr_correct_witness: "find_sym_at_addr ex_syms 0x1012 = Some 1"
  using find_sym_at_addr_correct [of ex_syms "0x1012" 1]
  by (simp add: ex_syms_def disjoint_symtab_def sym_covers_def)

text \<open>
  On overlapping symbols it can miss: the address \<open>0x1050\<close> lies in the first of three symbols,
  and neither the binary search nor the fallback finds it.
\<close>

lemma find_sym_misses_overlap:
  "sym_covers \<lparr>le_addr = 0x1000, le_size = 0x100, le_name = ''a''\<rparr> 0x1050 \<and>
   find_sym_at_addr [\<lparr>le_addr = 0x1000, le_size = 0x100, le_name = ''a''\<rparr>,
     \<lparr>le_addr = 0x1010, le_size = 0x10, le_name = ''b''\<rparr>,
     \<lparr>le_addr = 0x2000, le_size = 0x10, le_name = ''c''\<rparr>] 0x1050 = None"
  by (simp add: sym_covers_def find_sym_at_addr_def bsearch.simps Let_def)

text \<open>
  C19: No access to the arrays of the search is out of range: seeding, searching and collecting, in
  each of which an index outside the visited array, the symbol table or the \<open>MAX_REACHABLE\<close> slots
  of the queue is a fault, all succeed, on every symbol table, library and list of imports. The queue
  they leave holds no index twice, and the visited marks are exactly those of the queue.
\<close>

theorem bfs_arrays_safe:
  "\<exists>sd vq h sites. seeds syms imps = Some sd \<and>
     bfs syms secs sd 0 0 (length (snd sd)) = Some (vq, h) \<and>
     collect_sites syms secs n (snd vq) = Some sites \<and>
     bfs_inv (length syms) vq \<and> h \<le> length (snd vq)"
proof -
  obtain sd vq h where s: "seeds syms imps = Some sd" "bfs syms secs sd 0 0 (length (snd sd)) = Some (vq, h)"
    "bfs_ok syms secs (set (snd sd)) vq h" using search_from_seeds by blast
  then have "bfs_inv (length syms) vq" "h \<le> length (snd vq)" by (simp_all add: bfs_ok_def)
  moreover from this(1) have "set (snd vq) \<subseteq> {..<length syms}" by (auto simp: bfs_inv_def)
  ultimately show ?thesis using s collect_sites_eq [of "snd vq" syms secs n] by blast
qed

text \<open>
  C15: Tracing never faults and returns only sites of functions that calls reach from the seeds.
\<close>

theorem trace_sites_reachable:
  "\<exists>sd sites count. seeds syms imps = Some sd \<and>
     trace_libc_callgraph alloc_ok opened path syms imps n = Some (sites, count) \<and>
     length sites \<le> n \<and>
     (\<forall>x \<in> set sites. \<exists>i. cg_reach syms (load_exec_sections alloc_ok opened path 16) (set (snd sd)) i \<and>
        x \<in> set (fun_sites syms (load_exec_sections alloc_ok opened path 16) i))"
proof -
  let ?secs = "load_exec_sections alloc_ok opened path 16"
  obtain sd vq h where s: "seeds syms imps = Some sd" "bfs syms ?secs sd 0 0 (length (snd sd)) = Some (vq, h)"
    "bfs_ok syms ?secs (set (snd sd)) vq h" using search_from_seeds by blast
  have reach: "\<forall>i \<in> set (snd vq). cg_reach syms ?secs (set (snd sd)) i" using s(3) by (simp add: bfs_ok_def)
  show ?thesis
  proof (cases "?secs = [] \<or> \<not> alloc_ok (4 * MAX_REACHABLE) \<or> \<not> alloc_ok (length syms)")
    case True
    then have "trace_libc_callgraph alloc_ok opened path syms imps n = Some ([], None)"
      by (auto simp: trace_libc_callgraph_def Let_def)
    then show ?thesis using s(1) by simp
  next
    case False
    then have "trace_libc_callgraph alloc_ok opened path syms imps n =
        Some (take n (concat (map (fun_sites syms ?secs) (snd vq))), Some (length (snd vq)))"
      using trace_eq [OF s(1) refl _ _ _ s(2,3)] by blast
    then show ?thesis using s(1) reach by (auto simp del: length_concat dest!: in_set_takeD) blast
  qed
qed

theorem trace_sites_reachable_witness:
  "\<exists>sites count. trace_libc_callgraph (\<lambda>_. True) (\<lambda>_. ElfOpened ex_lib) ''libc.so.6'' ex_syms [''puts''] 2048 =
     Some (sites, count) \<and> length sites \<le> 2048"
  using trace_sites_reachable [of ex_syms "[''puts'']" "\<lambda>_. True" "\<lambda>_. ElfOpened ex_lib" "''libc.so.6''" 2048]
  by blast

text \<open>
  C9: On a library with an executable section, and when the two arrays can be allocated, tracing
  returns every site of every function that at most \<open>CALLGRAPH_DEPTH_LIMIT\<close> calls reach from the
  seeds, unless the queue or the output array is full.
\<close>

theorem trace_complete:
  assumes "load_exec_sections alloc_ok opened path 16 = secs" and "secs \<noteq> []"
    and "alloc_ok (4 * MAX_REACHABLE)" and "alloc_ok (length syms)"
  shows "\<exists>sd sites count. seeds syms imps = Some sd \<and>
    trace_libc_callgraph alloc_ok opened path syms imps n = Some (sites, Some count) \<and>
    (count < MAX_REACHABLE \<and> length sites < n \<longrightarrow>
      (\<forall>i x. cg_within syms secs (set (snd sd)) CALLGRAPH_DEPTH_LIMIT i \<longrightarrow> x \<in> set (fun_sites syms secs i) \<longrightarrow>
         x \<in> set sites))"
proof -
  obtain sd vq h where s: "seeds syms imps = Some sd" "bfs syms secs sd 0 0 (length (snd sd)) = Some (vq, h)"
    "bfs_ok syms secs (set (snd sd)) vq h"
    "length (snd vq) < MAX_REACHABLE \<longrightarrow>
       (\<forall>i. cg_within syms secs (set (snd sd)) CALLGRAPH_DEPTH_LIMIT i \<longrightarrow> i \<in> set (snd vq))"
    using search_from_seeds by blast
  let ?xs = "concat (map (fun_sites syms secs) (snd vq))"
  have "trace_libc_callgraph alloc_ok opened path syms imps n = Some (take n ?xs, Some (length (snd vq)))"
    by (rule trace_eq [OF s(1) assms s(2,3)])
  moreover have "x \<in> set (take n ?xs)" if "length (snd vq) < MAX_REACHABLE" "length (take n ?xs) < n"
      "cg_within syms secs (set (snd sd)) CALLGRAPH_DEPTH_LIMIT i" "x \<in> set (fun_sites syms secs i)" for i x
  proof -
    have "i \<in> set (snd vq)" using s(4) that(1,3) by blast
    then show ?thesis using that(2,4) by (auto simp del: length_concat)
  qed
  ultimately show ?thesis using s(1) by blast
qed

text \<open>The example's \<open>puts\<close> calls a function that holds the only site, which is returned.\<close>

theorem trace_complete_witness:
  "\<exists>sites count. trace_libc_callgraph (\<lambda>_. True) (\<lambda>_. ElfOpened ex_lib) ''libc.so.6'' ex_syms [''puts''] 2048 =
     Some (sites, Some count) \<and> 0x1010 \<in> set sites"
proof -
  let ?secs = "[\<lparr>xs_vaddr = 0x1000, xs_data = ex_code\<rparr>]"
  have "cg_within ex_syms ?secs {0} (Suc 23) (Suc 0)"
    by (rule cg_within.call [OF cg_within.seed [of 0]]) (simp_all add: ex_callees)
  then have w: "cg_within ex_syms ?secs (set (snd ([True, False], [0]))) CALLGRAPH_DEPTH_LIMIT (Suc 0)"
    by (simp add: CALLGRAPH_DEPTH_LIMIT_def)
  have x: "0x1010 \<in> set (fun_sites ex_syms ?secs (Suc 0))" by (simp add: ex_fun_sites)
  obtain sites count where t:
    "trace_libc_callgraph (\<lambda>_. True) (\<lambda>_. ElfOpened ex_lib) ''libc.so.6'' ex_syms [''puts''] 2048 = Some (sites, Some count)"
    "count < MAX_REACHABLE \<and> length sites < 2048 \<longrightarrow>
      (\<forall>i x. cg_within ex_syms ?secs (set (snd ([True, False], [0]))) CALLGRAPH_DEPTH_LIMIT i \<longrightarrow>
        x \<in> set (fun_sites ex_syms ?secs i) \<longrightarrow> x \<in> set sites)"
    using trace_complete [OF ex_sections, of ex_syms "[''puts'']" 2048] ex_seeds by auto
  have "count < MAX_REACHABLE \<and> length sites < 2048" using t(1) ex_trace by (auto simp: MAX_REACHABLE_def)
  then show ?thesis using t w x by blast
qed

end
