(* ===== verification/ProcMaps.thy ===== *)
theory ProcMaps
  imports BpfMaps CStr
begin

text \<open>
  The readers of \<open>/proc/PID/maps\<close> in \<open>src/runtime/loader.c\<close> and the loop that enters a module's
  address range into the trie of one-megabyte blocks. The text of the file is a parameter: \<open>None\<close>
  when it cannot be opened, otherwise its content at the time of the call.
\<close>

definition VMA_BLOCK_SIZE :: u64 where "VMA_BLOCK_SIZE = 0x100000"
definition VMA_BLOCK_PREFIX :: u32 where "VMA_BLOCK_PREFIX = 44"

subsection \<open>Finding paths and bases\<close>

text \<open>
  The path field of a line, cut at the newline and copied into a buffer of \<open>path_size\<close> bytes.
\<close>

definition path_field :: "string \<Rightarrow> string option" where
  "path_field line = map_option cut_line (strchr line (CHR ''/''))"

fun first_path :: "(string \<Rightarrow> bool) \<Rightarrow> string list \<Rightarrow> string option" where
  "first_path P [] = None"
| "first_path P (line # lines) =
     (if P line then (case path_field line of Some path \<Rightarrow> Some path | None \<Rightarrow> first_path P lines)
      else first_path P lines)"

definition is_libc_line :: "string \<Rightarrow> bool" where
  "is_libc_line line \<longleftrightarrow> contains line ''/libc.so'' \<or> contains line ''/libc-''"

definition find_libc_path :: "string option \<Rightarrow> nat \<Rightarrow> string option" where
  "find_libc_path maps path_size =
     (case maps of
        None \<Rightarrow> None
      | Some content \<Rightarrow>
          map_option (take (path_size - 1))
            (first_path (\<lambda>line. is_libc_line line \<and> \<not> contains line ''libcrypto'' \<and> \<not> contains line ''libcap'')
               (fgets_lines 512 content)))"

definition find_module_path :: "string option \<Rightarrow> string \<Rightarrow> nat \<Rightarrow> string option" where
  "find_module_path maps needle path_size =
     (case maps of
        None \<Rightarrow> None
      | Some content \<Rightarrow>
          map_option (take (path_size - 1))
            (first_path (\<lambda>line. contains line needle) (fgets_lines 512 content)))"

text \<open>
  The number at the start of the first matching line; 0 when there is none or it cannot be read.
\<close>

fun first_base :: "(string \<Rightarrow> bool) \<Rightarrow> string list \<Rightarrow> u64" where
  "first_base P [] = 0"
| "first_base P (line # lines) =
     (if P line then (case scan_lx line of Some (base, _) \<Rightarrow> base | None \<Rightarrow> 0) else first_base P lines)"

definition get_libc_base :: "string option \<Rightarrow> u64" where
  "get_libc_base maps =
     (case maps of None \<Rightarrow> 0 | Some content \<Rightarrow> first_base is_libc_line (fgets_lines 256 content))"

subsection \<open>The range of a module\<close>

fun module_range :: "string \<Rightarrow> string list \<Rightarrow> u64 \<times> u64 \<Rightarrow> u64 \<times> u64" where
  "module_range module_name [] r = r"
| "module_range module_name (line # lines) (min_addr, max_addr) =
     module_range module_name lines
       (if contains line module_name
        then (case scan_range line of
                Some (start, end_addr) \<Rightarrow>
                  (if start < min_addr then start else min_addr,
                   if end_addr > max_addr then end_addr else max_addr)
              | None \<Rightarrow> (min_addr, max_addr))
        else (min_addr, max_addr))"

text \<open>
  The loop over the blocks. Its counter wraps around at the end of the address space, so that it
  may not end: \<open>None\<close>.
\<close>

partial_function (option) vma_fill ::
  "'s bpf_kernel \<Rightarrow> u32 \<Rightarrow> u64 \<Rightarrow> u64 \<Rightarrow> u64 \<Rightarrow> int \<Rightarrow> 's \<Rightarrow> (int \<times> 's) option" where
  "vma_fill K mid base max_addr addr count s =
     (if addr < max_addr then
        (let (r, s') = vma_update K s \<lparr>prefixlen = VMA_BLOCK_PREFIX, key_addr = bswap64 addr\<rparr>
                         \<lparr>module_id = mid, base_addr = base\<rparr> BPF_ANY in
         vma_fill K mid base max_addr (addr + VMA_BLOCK_SIZE) (if r = 0 then count + 1 else count) s')
      else Some (count, s))"

text \<open>
  Result: the returned count (\<open>-1\<close> when there is nothing to enter), what was stored through
  \<open>out_base\<close>, and the maps.
\<close>

definition populate_vma_for_module ::
  "'s bpf_kernel \<Rightarrow> string option \<Rightarrow> string \<Rightarrow> u32 \<Rightarrow> 's \<Rightarrow> (int \<times> u64 option \<times> 's) option" where
  "populate_vma_for_module K maps module_name mid s =
     (case maps of
        None \<Rightarrow> Some (- 1, None, s)
      | Some content \<Rightarrow>
          (let (min_addr, max_addr) = module_range module_name (fgets_lines 512 content) (- 1, 0) in
           if min_addr = - 1 then Some (- 1, None, s)
           else
             (let block_start = min_addr AND NOT (VMA_BLOCK_SIZE - 1) in
              map_option (\<lambda>(count, s'). (count, Some min_addr, s'))
                (vma_fill K mid min_addr max_addr block_start 0 s))))"

subsection \<open>The loop over the blocks\<close>

text \<open>
  The blocks of a range, as a list, and the plain pass over such a list: what the loop computes when
  it ends.
\<close>

definition block_count :: "u64 \<Rightarrow> u64 \<Rightarrow> nat" where
  "block_count addr max_addr = (unat max_addr - unat addr + (2 ^ 20 - 1)) div 2 ^ 20"

definition block_addrs :: "u64 \<Rightarrow> u64 \<Rightarrow> u64 list" where
  "block_addrs addr max_addr = map (\<lambda>i. addr + of_nat i * VMA_BLOCK_SIZE) [0..<block_count addr max_addr]"

fun enter_blocks :: "'s bpf_kernel \<Rightarrow> vma_value \<Rightarrow> u64 list \<Rightarrow> int \<Rightarrow> 's \<Rightarrow> int \<times> 's" where
  "enter_blocks K v [] count s = (count, s)"
| "enter_blocks K v (a # as) count s =
     (let (r, s') = vma_update K s \<lparr>prefixlen = VMA_BLOCK_PREFIX, key_addr = bswap64 a\<rparr> v BPF_ANY in
      enter_blocks K v as (if r = 0 then count + 1 else count) s')"

lemma block_count_zero: "\<not> addr < max_addr \<Longrightarrow> block_count addr max_addr = 0"
  by (simp add: block_count_def word_less_nat_alt)

lemma next_block:
  assumes "addr < max_addr" and "max_addr \<le> - VMA_BLOCK_SIZE"
  shows "unat (addr + VMA_BLOCK_SIZE) = unat addr + 2 ^ 20"
    and "block_count addr max_addr = Suc (block_count (addr + VMA_BLOCK_SIZE) max_addr)"
proof -
  have "unat max_addr \<le> 2 ^ 64 - 2 ^ 20" "unat addr < unat max_addr"
    using assms by (simp_all add: word_le_nat_alt word_less_nat_alt VMA_BLOCK_SIZE_def)
  then show step: "unat (addr + VMA_BLOCK_SIZE) = unat addr + 2 ^ 20"
    by (simp add: unat_word_ariths(1) VMA_BLOCK_SIZE_def)
  have "(m - a + (2 ^ 20 - 1)) div 2 ^ 20 = Suc ((m - (a + 2 ^ 20) + (2 ^ 20 - 1)) div 2 ^ 20)"
    if "a < m" for a m :: nat
  proof (cases "a + 2 ^ 20 \<le> m")
    case True
    then have "m - a + (2 ^ 20 - 1) = (m - (a + 2 ^ 20) + (2 ^ 20 - 1)) + 2 ^ 20" by simp
    then show ?thesis by (simp only: div_add_self2) simp
  next
    case False
    then have "m - (a + 2 ^ 20) = 0" "2 ^ 20 \<le> m - a + (2 ^ 20 - 1)" "m - a + (2 ^ 20 - 1) < 2 * 2 ^ 20"
      using that by simp_all
    then show ?thesis by (simp add: div_nat_eqI)
  qed
  then show "block_count addr max_addr = Suc (block_count (addr + VMA_BLOCK_SIZE) max_addr)"
    using \<open>unat addr < unat max_addr\<close> unfolding block_count_def step by blast
qed

lemma block_addrs_step:
  assumes "addr < max_addr" and "max_addr \<le> - VMA_BLOCK_SIZE"
  shows "block_addrs addr max_addr = addr # block_addrs (addr + VMA_BLOCK_SIZE) max_addr"
  unfolding block_addrs_def next_block(2) [OF assms]
  by (simp add: upt_conv_Cons map_Suc_upt [symmetric] algebra_simps del: upt_Suc)

text \<open>Below the last block of the address space the loop ends, with the result of the plain pass.\<close>

lemma vma_fill_eq:
  assumes "max_addr \<le> - VMA_BLOCK_SIZE"
  shows "vma_fill K mid base max_addr addr count s =
    Some (enter_blocks K \<lparr>module_id = mid, base_addr = base\<rparr> (block_addrs addr max_addr) count s)"
proof (induction "block_count addr max_addr" arbitrary: addr count s)
  case 0
  then have "\<not> addr < max_addr" using next_block(2) [OF _ assms] by fastforce
  then show ?case
    by (subst vma_fill.simps) (simp add: block_addrs_def block_count_zero)
next
  case (Suc n)
  then have lt: "addr < max_addr" using block_count_zero by fastforce
  then have "n = block_count (addr + VMA_BLOCK_SIZE) max_addr"
    using Suc(2) next_block(2) [OF lt assms] by simp
  from Suc(1) [OF this] show ?case
    by (subst vma_fill.simps) (simp add: lt block_addrs_step [OF lt assms] split: prod.splits)
qed

text \<open>Above it the counter of an aligned start passes the end of the address space and never stops.\<close>

lemma aligned_below_last:
  fixes addr :: u64
  assumes "unat addr mod 2 ^ 20 = 0"
  shows "addr \<le> - VMA_BLOCK_SIZE" and "unat (addr + VMA_BLOCK_SIZE) mod 2 ^ 20 = 0"
proof -
  have lt: "unat addr < 2 ^ 64" using unsigned_less [of addr, where 'a = nat] by simp
  have "unat addr div 2 ^ 20 < 2 ^ 44" using lt by (simp add: less_mult_imp_div_less)
  moreover have "unat addr = 2 ^ 20 * (unat addr div 2 ^ 20)"
    using assms by (metis add.right_neutral mult_div_mod_eq)
  ultimately have "unat addr \<le> 2 ^ 64 - 2 ^ 20" by simp
  then show "addr \<le> - VMA_BLOCK_SIZE" by (simp add: word_le_nat_alt VMA_BLOCK_SIZE_def)
  show "unat (addr + VMA_BLOCK_SIZE) mod 2 ^ 20 = 0"
    using assms by (simp add: unat_word_ariths(1) VMA_BLOCK_SIZE_def mod_mod_cancel)
qed

lemma vma_fill_diverges:
  assumes "- VMA_BLOCK_SIZE < max_addr" and "unat addr mod 2 ^ 20 = 0"
  shows "vma_fill K mid base max_addr addr count s = None"
proof (rule ccontr)
  assume "vma_fill K mid base max_addr addr count s \<noteq> None"
  then obtain y where y: "vma_fill K mid base max_addr addr count s = Some y" by auto
  have "- VMA_BLOCK_SIZE < max_addr \<longrightarrow> unat addr mod 2 ^ 20 = 0 \<longrightarrow> False"
  proof (rule vma_fill.raw_induct
      [where P = "\<lambda>K mid base max_addr addr count s y.
          - VMA_BLOCK_SIZE < max_addr \<longrightarrow> unat addr mod 2 ^ 20 = 0 \<longrightarrow> False", OF _ y], goal_cases)
    case (1 f K mid base max_addr addr count s y)
    show ?case
    proof (intro impI)
      assume big: "- VMA_BLOCK_SIZE < max_addr" and al: "unat addr mod 2 ^ 20 = 0"
      have "addr < max_addr" using aligned_below_last(1) [OF al] big by (rule le_less_trans)
      then obtain count' s' where
        "f K mid base max_addr (addr + VMA_BLOCK_SIZE) count' s' = Some y"
        using 1(2) by (auto split: prod.splits)
      from 1(1) [OF this] show False using aligned_below_last(2) [OF al] big by blast
    qed
  qed
  with assms show False by simp
qed

subsection \<open>What the trie holds afterwards\<close>

lemma block_vma_key: "key_prefix \<lparr>prefixlen = VMA_BLOCK_PREFIX, key_addr = bswap64 a\<rparr> = block_key a"
  by (simp add: VMA_BLOCK_PREFIX_def key_prefix_44)

context bpf_kernel_laws
begin

lemma vma_update_cases:
  assumes "vma_update K s \<lparr>prefixlen = VMA_BLOCK_PREFIX, key_addr = bswap64 a\<rparr> v f = (r, s')"
  shows "vma_entries K s' = (if r = 0 then (vma_entries K s)(block_key a \<mapsto> v) else vma_entries K s)"
    and "kview K s' = (kview K s)\<lparr>vma_map := vma_map (kview K s')\<rparr>"
  using vma_ok [of s _ v f s'] vma_fail [OF assms] assms
  by (cases "r = 0"; simp add: block_vma_key)+

text \<open>
  The pass over a list of blocks: it touches only the trie and only the keys of these blocks, and
  when every update succeeds all of them hold the value.
\<close>

lemma enter_blocks_effect:
  assumes "enter_blocks K v as count s = (count', s')"
  shows "kview K s' = (kview K s)\<lparr>vma_map := vma_map (kview K s')\<rparr> \<and>
    count \<le> count' \<and> count' \<le> count + int (length as) \<and>
    (\<forall>q. q \<notin> block_key ` set as \<longrightarrow> vma_entries K s' q = vma_entries K s q) \<and>
    (\<forall>q. vma_entries K s' q = vma_entries K s q \<or> vma_entries K s' q = Some v) \<and>
    (count' = count + int (length as) \<longrightarrow> (\<forall>a \<in> set as. vma_entries K s' (block_key a) = Some v))"
  using assms
proof (induction as arbitrary: count s)
  case Nil
  then show ?case by simp
next
  case (Cons a as)
  obtain r s1 where up: "vma_update K s \<lparr>prefixlen = VMA_BLOCK_PREFIX, key_addr = bswap64 a\<rparr> v BPF_ANY = (r, s1)"
    by (cases "vma_update K s \<lparr>prefixlen = VMA_BLOCK_PREFIX, key_addr = bswap64 a\<rparr> v BPF_ANY")
  note u = vma_update_cases [OF up]
  have "enter_blocks K v as (if r = 0 then count + 1 else count) s1 = (count', s')"
    using Cons.prems up by simp
  note IH = Cons.IH [OF this]
  have view: "kview K s' = (kview K s)\<lparr>vma_map := vma_map (kview K s')\<rparr>"
    using IH u(2) by (metis (no_types, lifting) map_view.surjective map_view.update_convs(4))
  show ?case
  proof (intro conjI)
    show "\<forall>q. q \<notin> block_key ` set (a # as) \<longrightarrow> vma_entries K s' q = vma_entries K s q"
      using IH u(1) by auto
    show "\<forall>q. vma_entries K s' q = vma_entries K s q \<or> vma_entries K s' q = Some v"
      using IH u(1) by (metis fun_upd_apply)
    show "count' = count + int (length (a # as)) \<longrightarrow>
        (\<forall>a \<in> set (a # as). vma_entries K s' (block_key a) = Some v)"
    proof
      assume c: "count' = count + int (length (a # as))"
      then have r: "r = 0" using IH by (auto split: if_splits)
      then have "vma_entries K s1 (block_key a) = Some v" using u(1) by simp
      then have "vma_entries K s' (block_key a) = Some v" using IH by metis
      moreover have "\<forall>b \<in> set as. vma_entries K s' (block_key b) = Some v" using IH c r by simp
      ultimately show "\<forall>b \<in> set (a # as). vma_entries K s' (block_key b) = Some v" by simp
    qed
  qed (use view IH in \<open>auto split: if_splits\<close>)
qed

end

context bpf_kernel_replace
begin

text \<open>A pass over blocks replaces the value of each block that is bound, as long as the trie has room.\<close>

lemma enter_blocks_replaces:
  assumes "enter_blocks K v as count s = (count', s')" and "a \<in> set as"
    and "vma_entries K s (block_key a) \<noteq> None"
    and "card (dom (vma_entries K s)) + length as \<le> VMA_MAX_ENTRIES"
  shows "vma_entries K s' (block_key a) = Some v"
  using assms
proof (induction as arbitrary: count s)
  case (Cons b as)
  obtain r s1 where up: "vma_update K s \<lparr>prefixlen = VMA_BLOCK_PREFIX, key_addr = bswap64 b\<rparr> v BPF_ANY = (r, s1)"
    by (cases "vma_update K s \<lparr>prefixlen = VMA_BLOCK_PREFIX, key_addr = bswap64 b\<rparr> v BPF_ANY")
  note u = vma_update_cases(1) [OF up]
  have rest: "enter_blocks K v as (if r = 0 then count + 1 else count) s1 = (count', s')"
    using Cons.prems(1) up by simp
  show ?case
  proof (cases "block_key b = block_key a")
    case True
    then have "r = 0"
      using vma_replace [of s "\<lparr>prefixlen = VMA_BLOCK_PREFIX, key_addr = bswap64 b\<rparr>" v] up Cons.prems(3,4)
      by (simp add: block_vma_key)
    then have "vma_entries K s1 (block_key a) = Some v" using u True by simp
    then show ?thesis using enter_blocks_effect [OF rest] by metis
  next
    case False
    have "card (dom (vma_entries K s1)) \<le> Suc (card (dom (vma_entries K s)))"
      using u by (simp add: card_insert_le_m1 card_insert_if del: card_insert_disjoint split: if_splits)
    moreover have "a \<in> set as" using Cons.prems(2) False by auto
    moreover have "vma_entries K s1 (block_key a) \<noteq> None" using u False Cons.prems(3) by simp
    ultimately show ?thesis using Cons.IH [OF rest] Cons.prems(4) by simp
  qed
qed simp

end

subsection \<open>Blocks of a range\<close>

definition block_base :: "u64 \<Rightarrow> u64" where
  "block_base a = a AND NOT (VMA_BLOCK_SIZE - 1)"

lemma unat_block_base: "unat (block_base a) = unat a div 2 ^ 20 * 2 ^ 20"
proof -
  have "VMA_BLOCK_SIZE - 1 = mask 20" by (simp add: VMA_BLOCK_SIZE_def mask_eq_exp_minus_1)
  then have "block_base a = push_bit 20 (drop_bit 20 a)"
    unfolding block_base_def by (auto simp: bit_eq_iff bit_simps)
  then have "block_base a + take_bit 20 a = a" by (simp add: bits_ident)
  then have base: "block_base a = a - take_bit 20 a" by (simp add: eq_diff_eq)
  have low: "unat (take_bit 20 a) = unat a mod 2 ^ 20"
    unfolding unsigned_take_bit_eq by (rule take_bit_eq_mod)
  then have "unat (block_base a) = unat a - unat a mod 2 ^ 20"
    unfolding base by (subst unat_sub) (simp_all add: word_le_nat_alt)
  then show ?thesis by (simp add: minus_mod_eq_div_mult)
qed

lemma block_base_aligned: "unat (block_base a) mod 2 ^ 20 = 0"
  by (simp add: unat_block_base)

lemma block_base_le: "block_base a \<le> a"
  by (simp add: word_le_nat_alt unat_block_base)

lemma block_addrs_cover:
  assumes "unat start mod 2 ^ 20 = 0" and "start \<le> x" and "x < max_addr"
  shows "block_key x \<in> block_key ` set (block_addrs start max_addr)"
proof -
  let ?i = "(unat x - unat start) div 2 ^ 20"
  have le: "unat start \<le> unat x" "unat x < unat max_addr"
    using assms(2,3) by (simp_all add: word_le_nat_alt word_less_nat_alt)
  have down: "?i * 2 ^ 20 \<le> unat x - unat start" by (rule div_times_less_eq_dividend)
  have "unat x < 2 ^ 64" using unsigned_less [of x, where 'a = nat] by simp
  then have a: "unat (start + of_nat ?i * VMA_BLOCK_SIZE) = unat start + ?i * 2 ^ 20"
    using down le by (simp add: unat_word_ariths unat_of_nat take_bit_eq_mod VMA_BLOCK_SIZE_def)
  have "?i < block_count start max_addr"
  proof -
    have "Suc ?i \<le> (unat x - unat start + 2 ^ 20) div 2 ^ 20" by simp
    also have "\<dots> \<le> block_count start max_addr"
      unfolding block_count_def using le by (intro div_le_mono) simp
    finally show ?thesis by simp
  qed
  moreover have "(unat start + ?i * 2 ^ 20) div 2 ^ 20 = unat x div 2 ^ 20"
  proof -
    obtain k where k: "unat start = 2 ^ 20 * k" using assms(1) by (auto simp: mod_0_imp_dvd elim!: dvdE)
    moreover obtain m where "unat x = unat start + m" using le(1) by (auto simp: le_iff_add)
    ultimately show ?thesis by simp
  qed
  ultimately show ?thesis
    unfolding block_addrs_def using a by (auto simp: block_key_eq_iff image_iff intro!: bexI)
qed

lemma module_range_min_max:
  "module_range name lines (lo, hi) = (lo', hi') \<Longrightarrow>
     lo' \<le> lo \<and> hi \<le> hi' \<and>
     (\<forall>line \<in> set lines. \<forall>a b. contains line name \<longrightarrow> scan_range line = Some (a, b) \<longrightarrow> lo' \<le> a \<and> b \<le> hi')"
proof (induction lines arbitrary: lo hi)
  case Nil
  then show ?case by simp
next
  case (Cons line lines)
  let ?r = "if contains line name
        then (case scan_range line of
                Some (start, end_addr) \<Rightarrow>
                  (if start < lo then start else lo, if end_addr > hi then end_addr else hi)
              | None \<Rightarrow> (lo, hi))
        else (lo, hi)"
  obtain lo1 hi1 where r: "?r = (lo1, hi1)" by (cases ?r)
  then have here: "lo1 \<le> lo \<and> hi \<le> hi1 \<and>
      (\<forall>a b. contains line name \<longrightarrow> scan_range line = Some (a, b) \<longrightarrow> lo1 \<le> a \<and> b \<le> hi1)"
    by (auto split: if_splits option.splits)
  have "module_range name lines (lo1, hi1) = (lo', hi')" using Cons.prems r by simp
  from Cons.IH [OF this] here show ?case by (auto intro: order_trans)
qed

subsection \<open>Entering a module\<close>

lemma populate_cases:
  assumes "module_range name (fgets_lines 512 content) (- 1, 0) = (lo, hi)"
  shows "populate_vma_for_module K (Some content) name mid s =
    (if lo = - 1 then Some (- 1, None, s)
     else if - VMA_BLOCK_SIZE < hi then None
     else (let (n, s') = enter_blocks K \<lparr>module_id = mid, base_addr = lo\<rparr> (block_addrs (block_base lo) hi) 0 s
           in Some (n, Some lo, s')))"
  using assms vma_fill_diverges [OF _ block_base_aligned, of hi K mid lo lo 0 s]
    vma_fill_eq [of hi K mid lo "block_base lo" 0 s]
  by (auto simp: populate_vma_for_module_def block_base_def not_less split: prod.splits)

lemma populate_enters:
  assumes "populate_vma_for_module K (Some content) name mid s = Some (n, Some base, s')"
    and "module_range name (fgets_lines 512 content) (- 1, 0) = (lo, hi)"
  shows "base = lo \<and> lo \<noteq> - 1 \<and> hi \<le> - VMA_BLOCK_SIZE \<and>
    enter_blocks K \<lparr>module_id = mid, base_addr = lo\<rparr> (block_addrs (block_base lo) hi) 0 s = (n, s')"
  using assms(1) unfolding populate_cases [OF assms(2)]
  by (auto simp: not_less split: if_splits prod.splits)

context bpf_kernel_laws
begin

lemma enter_blocks_uniform:
  assumes "enter_blocks K v as count s = (count', s')" and "\<forall>q \<in> dom (vma_entries K s). length q = 44"
  shows "\<forall>q \<in> dom (vma_entries K s'). length q = 44"
proof
  fix q assume q: "q \<in> dom (vma_entries K s')"
  show "length q = 44"
  proof (cases "q \<in> block_key ` set as")
    case False
    then have "vma_entries K s' q = vma_entries K s q" using enter_blocks_effect [OF assms(1)] by blast
    then show ?thesis using q assms(2) by (auto simp: dom_def)
  qed auto
qed

text \<open>
  When every update succeeds, each address of a block that the module's range touches resolves to
  the module and its base.
\<close>

lemma populate_resolves:
  assumes "populate_vma_for_module K (Some content) name mid s = Some (n, Some base, s')"
    and "module_range name (fgets_lines 512 content) (- 1, 0) = (lo, hi)"
    and "n = int (block_count (block_base lo) hi)"
    and "\<forall>q \<in> dom (vma_entries K s). length q = 44"
    and "lo \<le> y" and "y < hi" and "unat x div 2 ^ 20 = unat y div 2 ^ 20"
  shows "vma_map (kview K s') \<lparr>prefixlen = 64, key_addr = bswap64 x\<rparr> =
    Some \<lparr>module_id = mid, base_addr = lo\<rparr>"
proof -
  let ?bs = "block_addrs (block_base lo) hi"
  have ent: "enter_blocks K \<lparr>module_id = mid, base_addr = lo\<rparr> ?bs 0 s = (n, s')"
    using populate_enters [OF assms(1,2)] by blast
  note eff = enter_blocks_effect [OF ent]
  have "n = 0 + int (length ?bs)" using assms(3) by (simp add: block_addrs_def)
  with eff have all: "\<forall>a \<in> set ?bs. vma_entries K s' (block_key a) = Some \<lparr>module_id = mid, base_addr = lo\<rparr>"
    by blast
  have "block_key x = block_key y" using assms(7) by (simp add: block_key_eq_iff)
  moreover have "block_key y \<in> block_key ` set ?bs"
    using block_addrs_cover [OF block_base_aligned order_trans [OF block_base_le assms(5)] assms(6)] .
  ultimately have hit: "vma_entries K s' (block_key x) = Some \<lparr>module_id = mid, base_addr = lo\<rparr>"
    using all by auto
  have "length q = 44" if "q \<in> dom (vma_entries K s')" for q
    using enter_blocks_uniform [OF ent assms(4)] that by blast
  then show ?thesis using vma_map_uniform hit by metis
qed

end

context bpf_kernel_replace
begin

lemma populate_captures:
  assumes "populate_vma_for_module K (Some content) name mid s = Some (n, Some base, s')"
    and "module_range name (fgets_lines 512 content) (- 1, 0) = (lo, hi)"
    and "n = int (block_count (block_base lo) hi)"
    and "\<forall>q \<in> dom (vma_entries K s). length q = 44"
    and "populate_vma_for_module K (Some content') name' mid' s' = Some (n', Some base', s'')"
    and "module_range name' (fgets_lines 512 content') (- 1, 0) = (lo', hi')"
    and "card (dom (vma_entries K s')) + block_count (block_base lo') hi' \<le> VMA_MAX_ENTRIES"
    and "lo \<le> x" and "x < hi" and "lo' \<le> y" and "y < hi'" and "unat x div 2 ^ 20 = unat y div 2 ^ 20"
  shows "vma_map (kview K s') \<lparr>prefixlen = 64, key_addr = bswap64 x\<rparr> = Some \<lparr>module_id = mid, base_addr = lo\<rparr> \<and>
    vma_map (kview K s'') \<lparr>prefixlen = 64, key_addr = bswap64 x\<rparr> = Some \<lparr>module_id = mid', base_addr = lo'\<rparr>"
proof -
  let ?bs = "block_addrs (block_base lo') hi'" and ?v = "\<lparr>module_id = mid', base_addr = lo'\<rparr>"
  have first: "vma_map (kview K s') \<lparr>prefixlen = 64, key_addr = bswap64 x\<rparr> = Some \<lparr>module_id = mid, base_addr = lo\<rparr>"
    using populate_resolves [OF assms(1-4,8,9) refl] .
  have ent: "enter_blocks K ?v ?bs 0 s' = (n', s'')" using populate_enters [OF assms(5,6)] by blast
  have len: "\<forall>q \<in> dom (vma_entries K s'). length q = 44"
    using enter_blocks_uniform assms(4) populate_enters [OF assms(1,2)] by blast
  have bound: "vma_entries K s' (block_key x) \<noteq> None" using first vma_map_uniform [of s' x] len by auto
  have "block_key x = block_key y" using assms(12) by (simp add: block_key_eq_iff)
  then obtain a where a: "a \<in> set ?bs" "block_key a = block_key x"
    using block_addrs_cover [OF block_base_aligned order_trans [OF block_base_le assms(10)] assms(11)] by auto
  have "vma_entries K s'' (block_key a) = Some ?v"
    by (rule enter_blocks_replaces [OF ent a(1)]) (use bound a(2) assms(7) in \<open>simp_all add: block_addrs_def\<close>)
  then show ?thesis
    using first a(2) vma_map_uniform [of s'' x] enter_blocks_uniform [OF ent len] by auto
qed

end

subsection \<open>An example text\<close>

text \<open>A line as the kernel prints it: two addresses, then the other fields.\<close>

definition maps_line :: "u64 \<Rightarrow> u64 \<Rightarrow> string \<Rightarrow> string" where
  "maps_line a b rest = show_addr a @ CHR ''-'' # show_addr b @ CHR '' '' # rest"

lemma scan_maps_line: "scan_range (maps_line a b rest @ s) = Some (a, b)"
  using scan_range_show [of "CHR '' ''" a b "rest @ s"]
  by (simp add: maps_line_def hex_value_def)

lemma contains_maps_line:
  assumes "hex_value c = None" and "c \<noteq> CHR ''-''" and "c \<noteq> CHR '' ''"
  shows "contains (maps_line a b rest @ s) (c # needle) = contains (rest @ s) (c # needle)"
proof -
  have "c \<notin> set (show_addr a @ CHR ''-'' # show_addr b @ '' '')"
    using assms set_show_addr by fastforce
  from contains_skip [OF this, of "rest @ s" needle] show ?thesis by (simp add: maps_line_def)
qed

lemma newline_maps_line [simp]: "CHR 0x0A \<in> set (maps_line a b rest) \<longleftrightarrow> CHR 0x0A \<in> set rest"
  using set_show_addr [of "CHR 0x0A"] by (auto simp: maps_line_def hex_value_def)

lemma length_maps_line: "length rest + 34 < n \<Longrightarrow> length (maps_line a b rest) < n"
  using length_show_addr [of a] length_show_addr [of b] by (simp add: maps_line_def)

definition ex_lines :: "string list" where
  "ex_lines = [maps_line 0x400000 0x401000 ''r-xp 00000000 08:01 17 /opt/sys'',
     maps_line 0x7F0000000000 0x7F0000080000 ''r-xp 00000000 08:01 23 /lib/libc.so.6'']"

definition ex_vsyscall :: string where
  "ex_vsyscall = maps_line 0xFFFFFFFFFF600000 0xFFFFFFFFFF601000 ''--xp 00000000 00:00 0 [vsyscall]''"

definition ex_content :: "string list \<Rightarrow> string" where
  "ex_content ls = concat (map (\<lambda>l. l @ newline) ls)"

lemma ex_short: "l \<in> set (ex_lines @ [ex_vsyscall]) \<Longrightarrow> CHR 0x0A \<notin> set l \<and> Suc (length l) < 256"
  by (auto simp: ex_lines_def ex_vsyscall_def length_maps_line)

lemma ex_fgets:
  "fgets_lines 512 (ex_content ex_lines) = map (\<lambda>l. l @ newline) ex_lines"
  "fgets_lines 512 (ex_content (ex_lines @ [ex_vsyscall])) = map (\<lambda>l. l @ newline) (ex_lines @ [ex_vsyscall])"
  unfolding ex_content_def by (rule fgets_lines_text; use ex_short in fastforce)+

lemma ex_contains:
  "contains (maps_line a b ''r-xp 00000000 08:01 17 /opt/sys'' @ newline) ''sys''"
  "\<not> contains (maps_line a b ''r-xp 00000000 08:01 23 /lib/libc.so.6'' @ newline) ''sys''"
  "contains (maps_line a b ''--xp 00000000 00:00 0 [vsyscall]'' @ newline) ''sys''"
  by (subst contains_maps_line; simp add: hex_value_def newline_def contains_def)+

lemma ex_range:
  "module_range ''sys'' (fgets_lines 512 (ex_content ex_lines)) (- 1, 0) = (0x400000, 0x401000)"
  "module_range ''sys'' (fgets_lines 512 (ex_content (ex_lines @ [ex_vsyscall]))) (- 1, 0) =
     (0x400000, 0xFFFFFFFFFF601000)"
  unfolding ex_fgets by (simp_all add: ex_lines_def ex_vsyscall_def ex_contains scan_maps_line)

lemma ex_populate:
  "populate_vma_for_module ref_kernel (Some (ex_content ex_lines)) ''sys'' 1 ref_empty =
     Some (1, Some 0x400000, ref_empty\<lparr>ref_vmas := [(block_key 0x400000, \<lparr>module_id = 1, base_addr = 0x400000\<rparr>)]\<rparr>)"
proof -
  have "block_base 0x400000 = 0x400000" by (simp add: block_base_def VMA_BLOCK_SIZE_def)
  moreover have "block_addrs 0x400000 0x401000 = [0x400000]"
    by (simp add: block_addrs_def block_count_def VMA_BLOCK_SIZE_def)
  ultimately show ?thesis
    unfolding populate_cases [OF ex_range(1)]
    by (simp add: VMA_BLOCK_SIZE_def ref_kernel_def alist_update_def block_vma_key ref_empty_def)
qed

lemma strchr_append: "x \<notin> set us \<Longrightarrow> strchr (us @ x # vs) x = Some (x # vs)"
  by (induction us) auto

lemma no_slash_show_addr: "CHR ''/'' \<notin> set (show_addr w)"
  using show_hex_digits [of "unat w"] by (auto simp: show_addr_def pad_left_def hex_value_def)

lemma cut_line_newline: "CHR 0x0A \<notin> set s \<Longrightarrow> cut_line (s @ newline) = s"
  by (induction s) (auto simp: cut_line_def newline_def)

lemma path_field_line:
  assumes "CHR ''/'' \<notin> set other" and "CHR 0x0A \<notin> set path"
  shows "path_field (maps_line a b (other @ CHR ''/'' # path) @ newline) = Some (CHR ''/'' # path)"
proof -
  have "CHR ''/'' \<notin> set (show_addr a @ CHR ''-'' # show_addr b @ CHR '' '' # other)"
    using assms(1) no_slash_show_addr by simp
  from strchr_append [OF this, of "path @ newline"] show ?thesis
    using cut_line_newline [of "CHR ''/'' # path"] assms(2) by (simp add: path_field_def maps_line_def)
qed

lemma first_base_skip: "\<forall>l \<in> set pre. \<not> P l \<Longrightarrow> first_base P (pre @ rest) = first_base P rest"
  by (induction pre) auto

lemma first_path_skip: "\<forall>l \<in> set pre. \<not> P l \<Longrightarrow> first_path P (pre @ rest) = first_path P rest"
  by (induction pre) auto

subsection \<open>Properties\<close>

text \<open>
  C6: After a module is entered and every update has succeeded, each address of each mapping whose
  line names the module resolves to the module's identifier and to its lowest mapped address.
\<close>

theorem module_addresses_resolve:
  assumes "bpf_kernel_laws K"
    and "populate_vma_for_module K (Some content) name mid s = Some (n, Some base, s')"
    and "module_range name (fgets_lines 512 content) (- 1, 0) = (lo, hi)"
    and "n = int (block_count (block_base lo) hi)"
    and "\<forall>q \<in> dom (vma_entries K s). length q = 44"
    and "line \<in> set (fgets_lines 512 content)" and "contains line name" and "scan_range line = Some (a, b)"
    and "a \<le> x" and "x < b"
  shows "vma_map (kview K s') \<lparr>prefixlen = 64, key_addr = bswap64 x\<rparr> =
    Some \<lparr>module_id = mid, base_addr = base\<rparr>"
proof -
  have "lo \<le> x" "x < hi"
    using module_range_min_max [OF assms(3)] assms(6-10) by (meson order_trans less_le_trans)+
  then show ?thesis
    using bpf_kernel_laws.populate_resolves [OF assms(1-5), of x x] populate_enters [OF assms(2,3)] by simp
qed

theorem module_addresses_resolve_witness:
  "\<exists>s'. populate_vma_for_module ref_kernel (Some (ex_content ex_lines)) ''sys'' 1 ref_empty =
      Some (1, Some 0x400000, s') \<and>
    vma_map (kview ref_kernel s') \<lparr>prefixlen = 64, key_addr = bswap64 0x400FFF\<rparr> =
      Some \<lparr>module_id = 1, base_addr = 0x400000\<rparr>"
  using module_addresses_resolve [OF refk.bpf_kernel_laws_axioms ex_populate
      ex_range(1),
      of "maps_line 0x400000 0x401000 ''r-xp 00000000 08:01 17 /opt/sys'' @ newline" "0x400000" "0x401000" "0x400FFF"]
    ex_populate
  by (simp add: ex_fgets ex_contains scan_maps_line block_count_def unat_block_base)
    (simp add: ref_kernel_def ref_empty_def ex_lines_def)

text \<open>
  C36: Two modules in one block: when a module is entered, and then another one whose range touches a
  block of the first, the addresses of the first module in that block resolve to it until the second
  is entered, and to the second one's identifier and base from then on.
\<close>

theorem shared_block_captured:
  assumes "bpf_kernel_replace K"
    and "populate_vma_for_module K (Some content) name mid s = Some (n, Some base, s')"
    and "module_range name (fgets_lines 512 content) (- 1, 0) = (lo, hi)"
    and "n = int (block_count (block_base lo) hi)"
    and "\<forall>q \<in> dom (vma_entries K s). length q = 44"
    and "populate_vma_for_module K (Some content') name' mid' s' = Some (n', Some base', s'')"
    and "module_range name' (fgets_lines 512 content') (- 1, 0) = (lo', hi')"
    and "card (dom (vma_entries K s')) + block_count (block_base lo') hi' \<le> VMA_MAX_ENTRIES"
    and "lo \<le> x" and "x < hi" and "lo' \<le> y" and "y < hi'" and "unat x div 2 ^ 20 = unat y div 2 ^ 20"
  shows "vma_map (kview K s') \<lparr>prefixlen = 64, key_addr = bswap64 x\<rparr> = Some \<lparr>module_id = mid, base_addr = base\<rparr> \<and>
    vma_map (kview K s'') \<lparr>prefixlen = 64, key_addr = bswap64 x\<rparr> = Some \<lparr>module_id = mid', base_addr = base'\<rparr>"
  using bpf_kernel_replace.populate_captures [OF assms(1-13)]
    populate_enters [OF assms(2,3)] populate_enters [OF assms(6,7)] by simp

text \<open>
  A plugin is mapped half a megabyte above the binary: once it is entered, the binary's addresses
  resolve to the plugin.
\<close>

definition ex_plugin :: "string list" where
  "ex_plugin = [maps_line 0x480000 0x481000 ''r-xp 00000000 08:01 29 /opt/plug'']"

lemma ex_plugin_range:
  "module_range ''plug'' (fgets_lines 512 (ex_content ex_plugin)) (- 1, 0) = (0x480000, 0x481000)"
proof -
  have "fgets_lines 512 (ex_content ex_plugin) = map (\<lambda>l. l @ newline) ex_plugin"
    unfolding ex_content_def by (rule fgets_lines_text) (auto simp: ex_plugin_def length_maps_line)
  moreover have "contains (maps_line 0x480000 0x481000 ''r-xp 00000000 08:01 29 /opt/plug'' @ newline) ''plug''"
    by (subst contains_maps_line; simp add: hex_value_def newline_def contains_def)
  ultimately show ?thesis by (simp add: ex_plugin_def scan_maps_line)
qed

lemma ex_plugin_populate:
  "populate_vma_for_module ref_kernel (Some (ex_content ex_plugin)) ''plug'' 2
     (ref_empty\<lparr>ref_vmas := [(block_key 0x400000, \<lparr>module_id = 1, base_addr = 0x400000\<rparr>)]\<rparr>) =
     Some (1, Some 0x480000, ref_empty\<lparr>ref_vmas := [(block_key 0x400000, \<lparr>module_id = 2, base_addr = 0x480000\<rparr>)]\<rparr>)"
proof -
  have "block_base 0x480000 = 0x400000" by (simp add: block_base_def VMA_BLOCK_SIZE_def)
  moreover have "block_addrs 0x400000 0x481000 = [0x400000]"
    by (simp add: block_addrs_def block_count_def VMA_BLOCK_SIZE_def)
  ultimately show ?thesis
    unfolding populate_cases [OF ex_plugin_range]
    by (simp add: VMA_BLOCK_SIZE_def ref_kernel_def alist_update_def block_vma_key ref_empty_def)
qed

theorem shared_block_captured_witness:
  "\<exists>s' s''. populate_vma_for_module ref_kernel (Some (ex_content ex_lines)) ''sys'' 1 ref_empty =
      Some (1, Some 0x400000, s') \<and>
    populate_vma_for_module ref_kernel (Some (ex_content ex_plugin)) ''plug'' 2 s' = Some (1, Some 0x480000, s'') \<and>
    vma_map (kview ref_kernel s') \<lparr>prefixlen = 64, key_addr = bswap64 0x400FFF\<rparr> =
      Some \<lparr>module_id = 1, base_addr = 0x400000\<rparr> \<and>
    vma_map (kview ref_kernel s'') \<lparr>prefixlen = 64, key_addr = bswap64 0x400FFF\<rparr> =
      Some \<lparr>module_id = 2, base_addr = 0x480000\<rparr>"
proof -
  note w = shared_block_captured [OF refkr.bpf_kernel_replace_axioms ex_populate ex_range(1) _ _
      ex_plugin_populate ex_plugin_range, of "0x400FFF" "0x480000"]
  show ?thesis
    by (intro exI conjI, rule ex_populate, rule ex_plugin_populate)
      (use w in \<open>simp_all add: block_count_def unat_block_base ref_kernel_def ref_empty_def VMA_MAX_ENTRIES_def\<close>)
qed

text \<open>
  C16: Entering a module ends unless one of its mappings reaches into the last block of the address
  space; then the counter wraps around and the loop never ends.
\<close>

theorem populate_ends_iff:
  "populate_vma_for_module K (Some content) name mid s = None \<longleftrightarrow>
     fst (module_range name (fgets_lines 512 content) (- 1, 0)) \<noteq> - 1 \<and>
     - VMA_BLOCK_SIZE < snd (module_range name (fgets_lines 512 content) (- 1, 0))"
proof -
  obtain lo hi where r: "module_range name (fgets_lines 512 content) (- 1, 0) = (lo, hi)"
    by (cases "module_range name (fgets_lines 512 content) (- 1, 0)")
  show ?thesis unfolding populate_cases [OF r] by (simp add: r split: prod.splits)
qed

text \<open>
  Modules are matched by substring of the whole line: a name that occurs in the kernel's
  \<open>[vsyscall]\<close> line stretches the range to that page, and entering a module mapped in user space takes
  more than \<open>2 ^ 43\<close> updates.
\<close>

lemma vsyscall_name_stretches_range:
  assumes "line \<in> set (fgets_lines 512 content)" and "contains line name"
    and "scan_range line = Some (0xFFFFFFFFFF600000, 0xFFFFFFFFFF601000)"
    and "module_range name (fgets_lines 512 content) (- 1, 0) = (lo, hi)" and "unat lo < 2 ^ 47"
  shows "2 ^ 43 < block_count (block_base lo) hi"
proof -
  have "0xFFFFFFFFFF601000 \<le> hi" using module_range_min_max [OF assms(4)] assms(1-3) by blast
  then have hi: "0xFFFFFFFFFF601000 \<le> unat hi" by (simp add: word_le_nat_alt)
  have "unat (block_base lo) < 2 ^ 47" using assms(5) block_base_le [of lo] by (simp add: word_le_nat_alt)
  then have "(2 ^ 43 + 1) * 2 ^ 20 \<le> unat hi - unat (block_base lo) + (2 ^ 20 - 1)" using hi by simp
  then have "(2 ^ 43 + 1) * 2 ^ 20 div 2 ^ 20 \<le> block_count (block_base lo) hi"
    unfolding block_count_def by (rule div_le_mono)
  then show ?thesis by simp
qed

text \<open>
  Finding libc: in a text of lines shorter than the read buffers, the first line that names libc
  gives the base address and the path, provided the path has no \<open>libcrypto\<close> or \<open>libcap\<close> in it.
\<close>

lemma libc_found:
  assumes "\<forall>l \<in> set (pre @ line # post). CHR 0x0A \<notin> set l \<and> Suc (length l) < 256"
    and "\<forall>l \<in> set pre. \<not> is_libc_line (l @ newline)"
    and "line = maps_line a b (other @ CHR ''/'' # path)" and "CHR ''/'' \<notin> set other"
    and "is_libc_line (line @ newline)" and "\<not> contains (line @ newline) ''libcrypto''"
    and "\<not> contains (line @ newline) ''libcap''" and "length path < 511"
  shows "get_libc_base (Some (concat (map (\<lambda>l. l @ newline) (pre @ line # post)))) = a \<and>
    find_libc_path (Some (concat (map (\<lambda>l. l @ newline) (pre @ line # post)))) 512 = Some (CHR ''/'' # path)"
proof -
  have lines: "fgets_lines n (concat (map (\<lambda>l. l @ newline) (pre @ line # post))) =
      map (\<lambda>l. l @ newline) pre @ (line @ newline) # map (\<lambda>l. l @ newline) post" if "256 \<le> n" for n
    using fgets_lines_text [of "pre @ line # post" n] assms(1) that by fastforce
  have skip: "\<forall>l \<in> set (map (\<lambda>l. l @ newline) pre). \<not> is_libc_line l" using assms(2) by simp
  have "scan_lx (line @ newline) = Some (a, CHR ''-'' # show_addr b @ CHR '' '' # (other @ CHR ''/'' # path) @ newline)"
    using scan_show_addr [of "CHR ''-''" a] by (simp add: assms(3) maps_line_def hex_value_def)
  moreover have "path_field (line @ newline) = Some (CHR ''/'' # path)"
    unfolding assms(3) by (rule path_field_line) (use assms(1,3,4) in \<open>auto simp: maps_line_def\<close>)
  ultimately show ?thesis
    using skip assms(5-8) lines [of 256] lines [of 512]
    by (simp add: get_libc_base_def find_libc_path_def first_base_skip first_path_skip)
qed

end
