(* ===== verification/LoaderPolicy.thy ===== *)
theory LoaderPolicy
  imports CallGraph ProcMaps
begin

text \<open>
  The part of \<open>main\<close> in \<open>src/runtime/loader.c\<close> that fills the policy maps, and \<open>setup_cfi_policy\<close>.
  The kernel is the parameter \<open>K\<close>, the files are \<open>opened\<close>, the content of \<open>/proc/PID/maps\<close> is \<open>maps\<close>
  (the child is stopped while these steps run, so one text serves all of them). A step returns the
  kernel state after it; \<open>None\<close> is a fault, a read of an uninitialised variable or a loop that does not
  end. Counters that are only printed are left out.
\<close>

subsection \<open>Policy values\<close>

definition policy_value :: "int \<Rightarrow> u64" where
  "policy_value nr =
     (if nr \<ge> 0 then POLICY_FLAG_CHECK_NR OR ucast (word_of_int nr :: u32) else 1)"

fun load_entries ::
  "'s bpf_kernel \<Rightarrow> map_handle \<Rightarrow> u64 \<Rightarrow> (u64 \<times> int) list \<Rightarrow> 's \<Rightarrow> nat \<times> 's" where
  "load_entries K main_map_fd load_base [] s = (0, s)"
| "load_entries K main_map_fd load_base ((site, nr) # es) s =
     (let (r, s1) = policy_update K s main_map_fd (site - load_base) (policy_value nr) BPF_ANY;
          (loaded, s2) = load_entries K main_map_fd load_base es s1 in
      ((if r = 0 then Suc loaded else loaded), s2))"

text \<open>One value for a list of offsets; the number of updates that succeeded.\<close>

fun put_sites ::
  "'s bpf_kernel \<Rightarrow> map_handle \<Rightarrow> u64 \<Rightarrow> update_flags \<Rightarrow> u64 list \<Rightarrow> 's \<Rightarrow> nat \<times> 's" where
  "put_sites K h val f [] s = (0, s)"
| "put_sites K h val f (x # xs) s =
     (let (r, s1) = policy_update K s h x val f;
          (added, s2) = put_sites K h val f xs s1 in
      ((if r = 0 then Suc added else added), s2))"

subsection \<open>libc\<close>

definition libc_syms :: "(string \<times> u32) list" where
  "libc_syms =
     [(''write'', 1), (''__write'', 1), (''__libc_write'', 1), (''__write_nocancel'', 1),
      (''read'', 0), (''__read'', 0), (''__libc_read'', 0), (''__read_nocancel'', 0),
      (''openat'', 257), (''openat64'', 257), (''__openat_nocancel'', 257),
      (''open'', 257), (''open64'', 257), (''__open'', 257),
      (''__open64'', 257), (''__libc_open'', 257), (''__libc_open64'', 257),
      (''__open_nocancel'', 257), (''__open64_nocancel'', 257),
      (''mmap'', 9), (''mmap64'', 9), (''__mmap'', 9),
      (''mprotect'', 10), (''__mprotect'', 10),
      (''connect'', 42), (''__connect'', 42),
      (''memfd_create'', 319),
      (''prctl'', 157), (''__prctl'', 157),
      (''sendmsg'', 46), (''__sendmsg'', 46),
      (''dup2'', 33),
      (''close'', 3), (''__close'', 3), (''__libc_close'', 3), (''__close_nocancel'', 3),
      (''ioctl'', 16)]"

definition cancel_syms :: "string list" where
  "cancel_syms = [''__syscall_cancel_arch'', ''__syscall_cancel'', ''__internal_syscall_cancel'']"

fun whitelist_symbols ::
  "'s bpf_kernel \<Rightarrow> (string \<Rightarrow> elf_open) \<Rightarrow> string \<Rightarrow> map_handle \<Rightarrow> nat \<Rightarrow> (string \<times> u64) list \<Rightarrow> 's \<Rightarrow> 's option" where
  "whitelist_symbols K opened libc_path h max_n [] s = Some s"
| "whitelist_symbols K opened libc_path h max_n ((name, val) # rest) s =
     (case resolve_libc_syscall_sites opened libc_path name max_n of
        None \<Rightarrow> None
      | Some sites \<Rightarrow>
          whitelist_symbols K opened libc_path h max_n rest (snd (put_sites K h val BPF_ANY sites s)))"

definition libc_fallback ::
  "'s bpf_kernel \<Rightarrow> (string \<Rightarrow> elf_open) \<Rightarrow> string \<Rightarrow> map_handle \<Rightarrow> 's \<Rightarrow> 's option" where
  "libc_fallback K opened libc_path h s =
     (case whitelist_symbols K opened libc_path h 8
             (map (\<lambda>(name, nr). (name, POLICY_FLAG_CHECK_NR OR ucast nr)) libc_syms) s of
        None \<Rightarrow> None
      | Some s1 \<Rightarrow>
          (case whitelist_symbols K opened libc_path h 4 (map (\<lambda>name. (name, 1)) cancel_syms) s1 of
             None \<Rightarrow> None
           | Some s2 \<Rightarrow>
               map_option (\<lambda>all_sites. snd (put_sites K h 1 BPF_NOEXIST all_sites s2))
                 (scan_elf_text_for_syscalls opened libc_path 512)))"

subsection \<open>The dynamic linker\<close>

definition is_ld_line :: "string \<Rightarrow> bool" where
  "is_ld_line line \<longleftrightarrow> contains line ''ld-linux'' \<or> contains line ''ld-musl''"

text \<open>The result of \<open>sscanf\<close> is not checked: a line it cannot read leaves its variables undefined.\<close>

fun ld_range :: "string list \<Rightarrow> u64 \<times> u64 \<Rightarrow> (u64 \<times> u64) option" where
  "ld_range [] r = Some r"
| "ld_range (line # lines) (ld_min, ld_max) =
     (if is_ld_line line then
        (case scan_range line of
           None \<Rightarrow> None
         | Some (st, en) \<Rightarrow>
             ld_range lines (if st < ld_min then st else ld_min, if en > ld_max then en else ld_max))
      else ld_range lines (ld_min, ld_max))"

definition whitelist_ld ::
  "'s bpf_kernel \<Rightarrow> (string \<Rightarrow> elf_open) \<Rightarrow> string option \<Rightarrow> map_handle \<Rightarrow> u64 \<Rightarrow> 's \<Rightarrow> 's option" where
  "whitelist_ld K opened maps h libc_base s =
     (let ld_base = (case maps of None \<Rightarrow> 0 | Some content \<Rightarrow> first_base is_ld_line (fgets_lines 512 content)) in
      case (maps, find_module_path maps ''ld-linux'' 512) of
        (Some content, Some ld_path) \<Rightarrow>
          if ld_base = 0 then Some s
          else
            (case scan_elf_text_for_syscalls opened ld_path 256 of
               None \<Rightarrow> None
             | Some sites \<Rightarrow>
                 (let s1 = snd (put_sites K h 1 BPF_NOEXIST (map (\<lambda>x. ld_base + x - libc_base) sites) s) in
                  case ld_range (fgets_lines 512 content) (- 1, 0) of
                    None \<Rightarrow> None
                  | Some (ld_min, ld_max) \<Rightarrow>
                      if ld_min = - 1 then Some s1
                      else map_option snd
                             (vma_fill K MODULE_LIBC libc_base ld_max (ld_min AND NOT (VMA_BLOCK_SIZE - 1)) 0 s1)))
      | _ \<Rightarrow> Some s)"

subsection \<open>Phases that can fail\<close>

text \<open>A phase goes on, jumps to the clean-up label, kills the child first, or has no defined outcome.\<close>

datatype 's phase = Proceed 's | Cleanup 's | Killed 's | Undefined

definition of_step :: "'s option \<Rightarrow> 's phase" where
  "of_step r = (case r of None \<Rightarrow> Undefined | Some s \<Rightarrow> Proceed s)"

definition and_then :: "'s phase \<Rightarrow> ('s \<Rightarrow> 's phase) \<Rightarrow> 's phase" where
  "and_then p f = (case p of Proceed s \<Rightarrow> f s | Cleanup s \<Rightarrow> Cleanup s | Killed s \<Rightarrow> Killed s
     | Undefined \<Rightarrow> Undefined)"

lemma and_then_assoc: "and_then (and_then p f) g = and_then p (\<lambda>s. and_then (f s) g)"
  by (cases p) (simp_all add: and_then_def)

definition libc_policy ::
  "'s bpf_kernel \<Rightarrow> (string \<Rightarrow> elf_open) \<Rightarrow> string option \<Rightarrow> u64 \<Rightarrow> 's \<Rightarrow> 's phase" where
  "libc_policy K opened maps libc_base s =
     (if libc_base = 0 then Proceed s
      else
        (case bpf_create_map K s of
           (None, s1) \<Rightarrow> Proceed s1
         | (Some libc_map_fd, s1) \<Rightarrow>
             (case registry_update K s1 MODULE_LIBC libc_map_fd BPF_ANY of
                (r, s2) \<Rightarrow>
                  if r \<noteq> 0 then Cleanup s2
                  else
                    (case find_libc_path maps 512 of
                       None \<Rightarrow> Proceed s2
                     | Some libc_path \<Rightarrow>
                         (case libc_fallback K opened libc_path libc_map_fd s2 of
                            None \<Rightarrow> Undefined
                          | Some s3 \<Rightarrow> of_step (whitelist_ld K opened maps libc_map_fd libc_base s3))))))"

subsection \<open>Other libraries\<close>

definition library_path :: "string \<Rightarrow> string \<Rightarrow> string option" where
  "library_path bin_name line =
     (if \<not> contains line ''r-xp'' \<and> \<not> contains line ''r--p'' then None
      else
        (case path_field line of
           None \<Rightarrow> None
         | Some path \<Rightarrow>
             if contains path bin_name \<or> contains path ''/libc.so'' \<or> contains path ''/libc-'' \<or>
                contains path ''ld-linux'' \<or> contains path ''ld-musl'' \<or> \<not> contains path ''.so'' \<or>
                contains path ''ld.so.cache'' \<or> contains path ''ld.so.conf'' \<or> contains path ''.cache'' \<or>
                contains path ''locale-archive'' \<or> contains path ''gconv-modules''
             then None else Some path))"

fun seen_libs :: "string \<Rightarrow> string list \<Rightarrow> string list \<Rightarrow> string list" where
  "seen_libs bin_name [] seen = seen"
| "seen_libs bin_name (line # lines) seen =
     (if length seen \<ge> 32 then seen
      else
        seen_libs bin_name lines
          (case library_path bin_name line of
             None \<Rightarrow> seen
           | Some path \<Rightarrow> if path \<in> set seen then seen else seen @ [take 511 path]))"

definition base_name :: "string \<Rightarrow> string" where
  "base_name path = (case strrchr path (CHR ''/'') of Some s \<Rightarrow> tl s | None \<Rightarrow> path)"

fun add_libraries ::
  "'s bpf_kernel \<Rightarrow> (string \<Rightarrow> elf_open) \<Rightarrow> string option \<Rightarrow> string list \<Rightarrow> u32 \<Rightarrow> 's \<Rightarrow> 's option" where
  "add_libraries K opened maps [] next_mod_id s = Some s"
| "add_libraries K opened maps (lib_path # libs) next_mod_id s =
     (if next_mod_id \<ge> 64 then Some s
      else
        (case bpf_create_map K s of
           (None, s1) \<Rightarrow> add_libraries K opened maps libs next_mod_id s1
         | (Some lib_map_fd, s1) \<Rightarrow>
             (case registry_update K s1 next_mod_id lib_map_fd BPF_ANY of
                (r, s2) \<Rightarrow>
                  if r \<noteq> 0 then add_libraries K opened maps libs next_mod_id s2
                  else
                    (case populate_vma_for_module K maps (base_name lib_path) next_mod_id s2 of
                       None \<Rightarrow> None
                     | Some (_, _, s3) \<Rightarrow>
                         (case scan_elf_text_for_syscalls opened lib_path 512 of
                            None \<Rightarrow> None
                          | Some sites \<Rightarrow>
                              add_libraries K opened maps libs (next_mod_id + 1)
                                (snd (put_sites K lib_map_fd 1 BPF_ANY sites s3)))))))"

definition library_policies ::
  "'s bpf_kernel \<Rightarrow> (string \<Rightarrow> elf_open) \<Rightarrow> string option \<Rightarrow> string \<Rightarrow> 's \<Rightarrow> 's option" where
  "library_policies K opened maps bin_name s =
     (case maps of
        None \<Rightarrow> Some s
      | Some content \<Rightarrow>
          add_libraries K opened maps (seen_libs bin_name (fgets_lines 512 content) []) MODULE_DYNAMIC_BASE s)"

subsection \<open>Caller ranges\<close>

text \<open>
  The size of the function at an address, from the first symbol table that gives a nonzero one; the
  search in a table stops at its first function symbol with that value.
\<close>

fun func_size_of :: "u64 \<Rightarrow> elf_scn list \<Rightarrow> u64 option" where
  "func_size_of func [] = Some 0"
| "func_size_of func (sc # scs) =
     (if sh_type sc \<noteq> SHT_SYMTAB \<or> scn_data sc = None then func_size_of func scs
      else
        (case scn_syms sc of
           None \<Rightarrow> None
         | Some syms \<Rightarrow>
             (case find (\<lambda>sy. st_value sy = func \<and> st_type sy = STT_FUNC) syms of
                Some sy \<Rightarrow> if st_size sy \<noteq> 0 then Some (st_size sy) else func_size_of func scs
              | None \<Rightarrow> func_size_of func scs)))"

definition cfi_range_of :: "elf_open \<Rightarrow> u64 \<Rightarrow> sentinel_cfi_entry \<Rightarrow> cfi_range option" where
  "cfi_range_of bin load_base ce =
     (let func_offset = cfi_func_addr ce - load_base in
      map_option
        (\<lambda>size. \<lparr>cfi_start = func_offset, cfi_end = func_offset + (if size = 0 then 4096 else size)\<rparr>)
        (case bin of ElfOpened e \<Rightarrow> func_size_of (cfi_func_addr ce) (e_scns e) | _ \<Rightarrow> Some 0))"

fun load_cfi_entries ::
  "'s bpf_kernel \<Rightarrow> elf_open \<Rightarrow> u64 \<Rightarrow> sentinel_cfi_entry list \<Rightarrow> 's \<Rightarrow> 's option" where
  "load_cfi_entries K bin load_base [] s = Some s"
| "load_cfi_entries K bin load_base (ce # ces) s =
     (case cfi_range_of bin load_base ce of
        None \<Rightarrow> None
      | Some rng \<Rightarrow>
          load_cfi_entries K bin load_base ces
            (snd (cfi_update K s (cfi_site_addr ce - load_base) rng BPF_ANY)))"

text \<open>Addresses and sizes of \<open>do_write\<close> and \<open>safe_caller\<close>; the last symbol of each name counts.\<close>

record cfi_symbols =
  do_write_addr :: u64
  do_write_size :: u64
  safe_caller_addr :: u64
  safe_caller_size :: u64

definition note_cfi_symbol :: "gelf_sym \<Rightarrow> cfi_symbols \<Rightarrow> cfi_symbols" where
  "note_cfi_symbol sy c =
     (if st_name sy = Some ''do_write'' then c\<lparr>do_write_addr := st_value sy, do_write_size := st_size sy\<rparr>
      else if st_name sy = Some ''safe_caller''
      then c\<lparr>safe_caller_addr := st_value sy, safe_caller_size := st_size sy\<rparr>
      else c)"

fun scan_cfi_symbols :: "elf_scn list \<Rightarrow> cfi_symbols \<Rightarrow> cfi_symbols option" where
  "scan_cfi_symbols [] c = Some c"
| "scan_cfi_symbols (sc # scs) c =
     (if sh_type sc \<noteq> SHT_SYMTAB \<or> scn_data sc = None then scan_cfi_symbols scs c
      else (case scn_syms sc of
              None \<Rightarrow> None
            | Some syms \<Rightarrow> scan_cfi_symbols scs (fold note_cfi_symbol syms c)))"

definition setup_cfi_policy ::
  "'s bpf_kernel \<Rightarrow> elf_open \<Rightarrow> u64 list \<Rightarrow> u64 \<Rightarrow> 's \<Rightarrow> 's option" where
  "setup_cfi_policy K bin policy_offsets load_base s =
     (case bin of
        ElfOpened e \<Rightarrow>
          (case scan_cfi_symbols (e_scns e)
                  \<lparr>do_write_addr = 0, do_write_size = 0, safe_caller_addr = 0, safe_caller_size = 0\<rparr> of
             None \<Rightarrow> None
           | Some c \<Rightarrow>
               if do_write_addr c = 0 \<or> safe_caller_addr c = 0 then Some s
               else
                 (let dw = do_write_addr c - load_base;
                      sc = safe_caller_addr c - load_base;
                      syscall_offset =
                        (case find (\<lambda>adj. adj \<ge> dw \<and> adj < dw + do_write_size c)
                                (map (\<lambda>off. off - load_base) policy_offsets) of
                           Some adj \<Rightarrow> adj
                         | None \<Rightarrow> dw + 16) in
                  Some (snd (cfi_update K s syscall_offset
                          \<lparr>cfi_start = sc, cfi_end = sc + safe_caller_size c\<rparr> BPF_ANY))))
      | _ \<Rightarrow> Some s)"

definition cfi_setup ::
  "'s bpf_kernel \<Rightarrow> (string \<Rightarrow> elf_open) \<Rightarrow> string \<Rightarrow> (u64 \<times> int) list \<Rightarrow> u64 \<Rightarrow> 's \<Rightarrow> 's option" where
  "cfi_setup K opened binary entries load_base s =
     (let ces = parse_sentinel_cfi opened binary MAX_POLICY_ENTRIES in
      if ces \<noteq> [] then load_cfi_entries K (opened binary) load_base ces s
      else setup_cfi_policy K (opened binary) (map fst entries) load_base s)"

subsection \<open>Libc policy from the call graph\<close>

text \<open>
  The block that the source disables with \<open>if (0)\<close>. The outer \<open>None\<close> is a fault, the inner one the
  jump to the fallback.
\<close>

definition nr_bindings :: "(string \<times> u32) list" where
  "nr_bindings =
     [(''write'', 1), (''__write'', 1), (''__libc_write'', 1), (''__write_nocancel'', 1),
      (''read'', 0), (''__read'', 0), (''__libc_read'', 0), (''__read_nocancel'', 0),
      (''openat'', 257), (''openat64'', 257), (''__openat_nocancel'', 257),
      (''open'', 257), (''open64'', 257), (''__open'', 257),
      (''__libc_open'', 257), (''__open_nocancel'', 257),
      (''mmap'', 9), (''mmap64'', 9), (''__mmap'', 9),
      (''mprotect'', 10), (''__mprotect'', 10),
      (''connect'', 42), (''__connect'', 42),
      (''memfd_create'', 319),
      (''prctl'', 157), (''__prctl'', 157),
      (''sendmsg'', 46), (''__sendmsg'', 46),
      (''dup2'', 33), (''close'', 3), (''__close'', 3),
      (''ioctl'', 16)]"

definition site_value :: "libc_sym_entry list \<Rightarrow> u64 \<Rightarrow> u64" where
  "site_value syms site =
     (case find_sym_at_addr syms site of
        None \<Rightarrow> 1
      | Some i \<Rightarrow>
          (case map_of nr_bindings (le_name (syms ! i)) of
             Some nr \<Rightarrow> POLICY_FLAG_CHECK_NR OR ucast nr
           | None \<Rightarrow> 1))"

fun put_values :: "'s bpf_kernel \<Rightarrow> map_handle \<Rightarrow> (u64 \<Rightarrow> u64) \<Rightarrow> u64 list \<Rightarrow> 's \<Rightarrow> nat \<times> 's" where
  "put_values K h val [] s = (0, s)"
| "put_values K h val (x # xs) s =
     (let (r, s1) = policy_update K s h x (val x) BPF_ANY;
          (added, s2) = put_values K h val xs s1 in
      ((if r = 0 then Suc added else added), s2))"

definition callgraph_policy ::
  "(nat \<Rightarrow> bool) \<Rightarrow> 's bpf_kernel \<Rightarrow> (string \<Rightarrow> elf_open) \<Rightarrow> string \<Rightarrow> map_handle \<Rightarrow> string list \<Rightarrow> 's \<Rightarrow>
     's option option" where
  "callgraph_policy alloc_ok K opened libc_path h app_imports s =
     (if \<not> alloc_ok (144 * MAX_LIBC_SYMS) then Some None
      else
        (case build_libc_symtab opened libc_path MAX_LIBC_SYMS of
           None \<Rightarrow> None
         | Some syms \<Rightarrow>
             if syms = [] then Some None
             else
               map_option (\<lambda>(cg_sites, _). Some (snd (put_values K h (site_value syms) cg_sites s)))
                 (trace_libc_callgraph alloc_ok opened libc_path syms app_imports 2048)))"

subsection \<open>All policies of a child\<close>

text \<open>
  From the end of the wait for libc to the tracking of the child: \<open>libc_base\<close> is what the wait
  found, \<open>entries\<close> and \<open>load_base\<close> what was parsed from the binary. The handle of the main policy map
  is kept for later reloads (it is absent when its creation failed), and so is the number of its
  entries that were loaded.
\<close>

record 's child_setup =
  main_map_fd :: "map_handle option"
  main_loaded :: nat
  setup_phase :: "'s phase"

definition register_main ::
  "'s bpf_kernel \<Rightarrow> (u64 \<times> int) list \<Rightarrow> u64 \<Rightarrow> 's \<Rightarrow> 's child_setup" where
  "register_main K entries load_base s =
     (case bpf_create_map K s of
        (None, s1) \<Rightarrow> \<lparr>main_map_fd = None, main_loaded = 0, setup_phase = Cleanup s1\<rparr>
      | (Some fd, s1) \<Rightarrow>
          (case registry_update K s1 MODULE_MAIN fd BPF_ANY of
             (r, s2) \<Rightarrow>
               if r \<noteq> 0 then \<lparr>main_map_fd = Some fd, main_loaded = 0, setup_phase = Cleanup s2\<rparr>
               else (case load_entries K fd load_base entries s2 of
                       (loaded, s3) \<Rightarrow>
                         \<lparr>main_map_fd = Some fd, main_loaded = loaded, setup_phase = Proceed s3\<rparr>)))"

definition track_child :: "'s bpf_kernel \<Rightarrow> u32 \<Rightarrow> 's \<Rightarrow> 's phase" where
  "track_child K pid s =
     (case pid_update K s pid 1 BPF_ANY of (r, s1) \<Rightarrow> if r \<noteq> 0 then Killed s1 else Proceed s1)"

definition populate_modules ::
  "'s bpf_kernel \<Rightarrow> string option \<Rightarrow> string \<Rightarrow> u64 \<Rightarrow> 's \<Rightarrow> (u64 \<times> 's) option" where
  "populate_modules K maps bin_name libc_base s =
     (case populate_vma_for_module K maps bin_name MODULE_MAIN s of
        None \<Rightarrow> None
      | Some (_, _, s1) \<Rightarrow>
          if libc_base = 0 then Some (0, s1)
          else
            map_option (\<lambda>(_, out_base, s2). ((case out_base of Some b \<Rightarrow> b | None \<Rightarrow> libc_base), s2))
              (populate_vma_for_module K maps ''libc'' MODULE_LIBC s1))"

definition setup_child ::
  "'s bpf_kernel \<Rightarrow> (string \<Rightarrow> elf_open) \<Rightarrow> string option \<Rightarrow> string \<Rightarrow> (u64 \<times> int) list \<Rightarrow> u64 \<Rightarrow> u64 \<Rightarrow> u32 \<Rightarrow>
     's \<Rightarrow> 's child_setup" where
  "setup_child K opened maps binary entries load_base libc_base pid s =
     (case populate_modules K maps (base_name binary) libc_base s of
        None \<Rightarrow> \<lparr>main_map_fd = None, main_loaded = 0, setup_phase = Undefined\<rparr>
      | Some (libc_base, s1) \<Rightarrow>
          (let m = register_main K entries load_base s1 in
           m\<lparr>setup_phase :=
               and_then (setup_phase m) (\<lambda>s2.
               and_then (libc_policy K opened maps libc_base s2) (\<lambda>s3.
               and_then (of_step (library_policies K opened maps (base_name binary) s3)) (\<lambda>s4.
               and_then (of_step (cfi_setup K opened binary entries load_base s4))
                 (track_child K pid))))\<rparr>))"

subsection \<open>What the steps leave in the maps\<close>

text \<open>The phases after the load of the main policy, up to the tracking.\<close>

definition later_phases ::
  "'s bpf_kernel \<Rightarrow> (string \<Rightarrow> elf_open) \<Rightarrow> string option \<Rightarrow> string \<Rightarrow> (u64 \<times> int) list \<Rightarrow> u64 \<Rightarrow> u64 \<Rightarrow>
     's \<Rightarrow> 's phase" where
  "later_phases K opened maps binary entries b libc_base s2 =
     and_then (libc_policy K opened maps libc_base s2) (\<lambda>s3.
     and_then (of_step (library_policies K opened maps (base_name binary) s3)) (\<lambda>s4.
       of_step (cfi_setup K opened binary entries b s4)))"

text \<open>Only the inner map of one handle differs.\<close>

definition only_inner :: "map_handle \<Rightarrow> map_view \<Rightarrow> map_view \<Rightarrow> bool" where
  "only_inner h v v' \<longleftrightarrow> (\<exists>x. v' = v\<lparr>inner_policy := (inner_policy v)(h := x)\<rparr>)"

lemma only_inner_refl [simp]: "only_inner h v v"
  unfolding only_inner_def by (rule exI [of _ "inner_policy v h"]) simp

lemma only_inner_trans: "only_inner h u v \<Longrightarrow> only_inner h v w \<Longrightarrow> only_inner h u w"
  by (auto simp: only_inner_def)

lemma only_inner_fields:
  assumes "only_inner h v v'"
  shows "target_pid_map v' = target_pid_map v" "policy_registry v' = policy_registry v"
    "vma_map v' = vma_map v" "cfi_policy v' = cfi_policy v" "h' \<noteq> h \<Longrightarrow> inner_policy v' h' = inner_policy v h'"
  using assms by (auto simp: only_inner_def)

context bpf_kernel_laws
begin

lemma policy_update_cases:
  assumes "policy_update K s h k v f = (r, s')"
  shows "kview K s' = (if r = 0 then (kview K s)\<lparr>inner_policy :=
      (inner_policy (kview K s))(h := (inner_policy (kview K s) h)(k \<mapsto> v))\<rparr> else kview K s)"
    and "vma_entries K s' = vma_entries K s"
  using policy_ok [of s h k v f s'] policy_fail [OF assms] assms by (cases "r = 0"; simp)+

lemma policy_update_only: "policy_update K s h k v f = (r, s') \<Longrightarrow> only_inner h (kview K s) (kview K s')"
  by (auto simp: policy_update_cases(1) only_inner_def intro: only_inner_refl [unfolded only_inner_def])

text \<open>
  A load writes one inner map. When every update succeeds, the map is the old one overridden by the
  entries, later ones first.
\<close>

lemma load_entries_effect:
  assumes "load_entries K h b es s = (n, s')"
  shows "n \<le> length es \<and> only_inner h (kview K s) (kview K s') \<and>
    vma_entries K s' = vma_entries K s \<and>
    (n = length es \<longrightarrow> inner_policy (kview K s') h =
       inner_policy (kview K s) h ++ map_of (rev (map (\<lambda>(site, nr). (site - b, policy_value nr)) es))) \<and>
    (\<forall>k. inner_policy (kview K s') h k = inner_policy (kview K s) h k \<or>
       (\<exists>(site, nr) \<in> set es. k = site - b \<and> inner_policy (kview K s') h k = Some (policy_value nr)))"
  using assms
proof (induction es arbitrary: s n)
  case Nil
  then show ?case by simp
next
  case (Cons e es)
  obtain site nr where e: "e = (site, nr)" by (cases e)
  obtain r s1 where up: "policy_update K s h (site - b) (policy_value nr) BPF_ANY = (r, s1)"
    by (cases "policy_update K s h (site - b) (policy_value nr) BPF_ANY")
  obtain m where rec: "load_entries K h b es s1 = (m, s')" and n: "n = (if r = 0 then Suc m else m)"
    using Cons.prems by (auto simp: e up split: prod.splits)
  note u = policy_update_cases [OF up]
  note IH = Cons.IH [OF rec]
  let ?i = "\<lambda>t. inner_policy (kview K t)"
  have i1: "?i s1 h = (if r = 0 then (?i s h)(site - b \<mapsto> policy_value nr) else ?i s h)"
    using u(1) by simp
  have view: "only_inner h (kview K s) (kview K s')"
    using only_inner_trans [OF policy_update_only [OF up]] IH by blast
  have all: "?i s' h = ?i s h ++ map_of (rev (map (\<lambda>(site, nr). (site - b, policy_value nr)) (e # es)))"
    if "n = length (e # es)"
  proof -
    from that have r: "r = 0" "m = length es" using n IH by (auto split: if_splits)
    have "?i s' h = ?i s1 h ++ map_of (rev (map (\<lambda>(site, nr). (site - b, policy_value nr)) es))"
      using IH r(2) by blast
    moreover have "?i s1 h = (?i s h)(site - b \<mapsto> policy_value nr)" using i1 r(1) by simp
    ultimately show ?thesis by (simp add: e)
  qed
  have any: "?i s' h k = ?i s h k \<or>
      (\<exists>(site, nr) \<in> set (e # es). k = site - b \<and> ?i s' h k = Some (policy_value nr))" for k
  proof -
    have "?i s' h k = ?i s1 h k \<or>
        (\<exists>(site, nr) \<in> set es. k = site - b \<and> ?i s' h k = Some (policy_value nr))" using IH by blast
    then show ?thesis using i1 by (auto simp: e split: if_splits)
  qed
  show ?case using IH n view all any u(2) by (auto split: if_splits)
qed

end

context bpf_kernel_replace
begin

text \<open>
  An offset of the table gets the value of its last entry, unless it was unbound and the kernel
  accepted none of its entries; every other offset keeps its value.
\<close>

lemma load_entries_replaces:
  assumes "load_entries K h b es s = (n, s')"
  shows "case map_of (rev (map (\<lambda>(site, nr). (site - b, policy_value nr)) es)) k of
      None \<Rightarrow> inner_policy (kview K s') h k = inner_policy (kview K s) h k
    | Some v \<Rightarrow> inner_policy (kview K s') h k = Some v \<or>
        inner_policy (kview K s) h k = None \<and> inner_policy (kview K s') h k = None"
  using assms
proof (induction es arbitrary: s n)
  case (Cons e es)
  obtain site nr where e: "e = (site, nr)" by (cases e)
  obtain r s1 where up: "policy_update K s h (site - b) (policy_value nr) BPF_ANY = (r, s1)"
    by (cases "policy_update K s h (site - b) (policy_value nr) BPF_ANY")
  obtain m where rec: "load_entries K h b es s1 = (m, s')"
    using Cons.prems by (auto simp: e up split: prod.splits)
  have i1: "inner_policy (kview K s1) h =
      (if r = 0 then (inner_policy (kview K s) h)(site - b \<mapsto> policy_value nr) else inner_policy (kview K s) h)"
    using policy_update_cases(1) [OF up] by simp
  have "inner_policy (kview K s) h (site - b) = None" if "r \<noteq> 0"
    using policy_replace [of s h "site - b" "policy_value nr"] up that
    by (cases "inner_policy (kview K s) h (site - b)") auto
  then show ?case using Cons.IH [OF rec] i1 by (auto simp: e map_add_def split: option.splits if_splits)
qed simp

end

subsection \<open>Filling the maps around the main policy\<close>

text \<open>
  What every phase other than the load of the main policy consists of: creating maps, writing inner
  maps other than \<open>fd\<close>, registering modules other than the main one, entering blocks and caller
  ranges. Only the last step of the setup, tracking the child, is not among them.
\<close>

inductive fills :: "'s bpf_kernel \<Rightarrow> map_handle \<Rightarrow> 's \<Rightarrow> 's \<Rightarrow> bool" for K :: "'s bpf_kernel" and fd where
  stay: "fills K fd s s"
| create: "fills K fd s t \<Longrightarrow> bpf_create_map K t = (h, u) \<Longrightarrow> fills K fd s u"
| policy: "fills K fd s t \<Longrightarrow> h \<noteq> fd \<Longrightarrow> policy_update K t h k v f = (r, u) \<Longrightarrow> fills K fd s u"
| registry: "fills K fd s t \<Longrightarrow> m \<noteq> MODULE_MAIN \<Longrightarrow> registry_update K t m h f = (r, u) \<Longrightarrow> fills K fd s u"
| vma: "fills K fd s t \<Longrightarrow>
    vma_update K t \<lparr>prefixlen = VMA_BLOCK_PREFIX, key_addr = bswap64 a\<rparr> w f = (r, u) \<Longrightarrow> fills K fd s u"
| cfi: "fills K fd s t \<Longrightarrow> cfi_update K t k rg f = (r, u) \<Longrightarrow> fills K fd s u"

lemma fills_trans: "fills K fd t u \<Longrightarrow> fills K fd s t \<Longrightarrow> fills K fd s u"
  by (induction rule: fills.induct) (auto intro: fills.intros)

lemmas fills_one = fills.create [OF fills.stay] fills.policy [OF fills.stay] fills.registry [OF fills.stay]
  fills.vma [OF fills.stay] fills.cfi [OF fills.stay]

lemma put_sites_fills: "h \<noteq> fd \<Longrightarrow> fills K fd s (snd (put_sites K h v f xs s))"
proof (induction xs arbitrary: s)
  case (Cons x xs)
  obtain r s1 where up: "policy_update K s h x v f = (r, s1)" by (cases "policy_update K s h x v f")
  then show ?case using fills_trans [OF Cons.IH [OF Cons.prems, of s1] fills_one(2) [OF Cons.prems up]]
    by (auto split: prod.splits)
qed (simp add: fills.stay)

lemma vma_fill_fills:
  assumes "vma_fill K mid base max_addr addr count s = Some (count', s')"
  shows "fills K fd s s'"
proof -
  have "fills K fd s (snd (count', s'))"
  proof (rule vma_fill.raw_induct
      [where P = "\<lambda>K mid base max_addr addr count s y. fills K fd s (snd y)", OF _ assms], goal_cases)
    case (1 f K mid base max_addr addr count s y)
    show ?case
    proof (cases "addr < max_addr")
      case True
      obtain r s1 where up: "vma_update K s \<lparr>prefixlen = VMA_BLOCK_PREFIX, key_addr = bswap64 addr\<rparr>
          \<lparr>module_id = mid, base_addr = base\<rparr> BPF_ANY = (r, s1)"
        by (cases "vma_update K s \<lparr>prefixlen = VMA_BLOCK_PREFIX, key_addr = bswap64 addr\<rparr>
          \<lparr>module_id = mid, base_addr = base\<rparr> BPF_ANY")
      then have "f K mid base max_addr (addr + VMA_BLOCK_SIZE) (if r = 0 then count + 1 else count) s1 = Some y"
        using 1(2) True by simp
      from 1(1) [OF this] show ?thesis by (rule fills_trans) (rule fills_one(4) [OF up])
    qed (use 1(2) fills.stay in auto)
  qed
  then show ?thesis by simp
qed

lemma populate_fills:
  "populate_vma_for_module K maps name mid s = Some (n, b, s') \<Longrightarrow> fills K fd s s'"
  by (auto simp: populate_vma_for_module_def fills.stay split: option.splits prod.splits if_splits
      dest: vma_fill_fills)

lemma populate_modules_fills:
  "populate_modules K maps bin_name libc_base s = Some (b, s') \<Longrightarrow> fills K fd s s'"
  by (auto simp: populate_modules_def split: option.splits if_splits
      dest!: populate_fills [where fd = fd]) (blast intro: fills_trans)+

lemma whitelist_symbols_fills:
  "h \<noteq> fd \<Longrightarrow> whitelist_symbols K opened path h n ns s = Some s' \<Longrightarrow> fills K fd s s'"
proof (induction K opened path h n ns s rule: whitelist_symbols.induct)
  case (2 K opened path h n name val rest s)
  then show ?case
    by (auto split: option.splits intro: fills_trans [OF _ put_sites_fills])
qed (simp add: fills.stay)

lemma libc_fallback_fills:
  assumes "h \<noteq> fd" and "libc_fallback K opened path h s = Some s'"
  shows "fills K fd s s'"
proof -
  from assms(2) obtain s1 s2 sites ns ms where
    s1: "whitelist_symbols K opened path h 8 ns s = Some s1" and
    s2: "whitelist_symbols K opened path h 4 ms s1 = Some s2" and
    s': "s' = snd (put_sites K h 1 BPF_NOEXIST sites s2)"
    by (auto simp: libc_fallback_def split: option.splits)
  show ?thesis unfolding s'
    by (intro fills_trans [OF put_sites_fills [OF assms(1)]] fills_trans [OF whitelist_symbols_fills [OF assms(1) s2]]
        whitelist_symbols_fills [OF assms(1) s1])
qed

lemma whitelist_ld_fills:
  "h \<noteq> fd \<Longrightarrow> whitelist_ld K opened maps h libc_base s = Some s' \<Longrightarrow> fills K fd s s'"
  by (auto simp: whitelist_ld_def Let_def fills.stay split: option.splits prod.splits if_splits
      dest!: vma_fill_fills intro: fills_trans put_sites_fills)

lemma load_cfi_entries_fills: "load_cfi_entries K bin b ces s = Some s' \<Longrightarrow> fills K fd s s'"
proof (induction ces arbitrary: s)
  case (Cons ce ces)
  then obtain rg where "load_cfi_entries K bin b ces (snd (cfi_update K s (cfi_site_addr ce - b) rg BPF_ANY)) = Some s'"
    by (auto split: option.splits)
  from Cons.IH [OF this] show ?case by (rule fills_trans) (rule fills_one(5) [OF surjective_pairing])
qed (simp add: fills.stay)

lemma cfi_setup_fills: "cfi_setup K opened binary entries b s = Some s' \<Longrightarrow> fills K fd s s'"
  by (auto simp: cfi_setup_def setup_cfi_policy_def Let_def fills.stay
      split: if_splits elf_open.splits option.splits
      dest!: load_cfi_entries_fills intro: fills_one(5) [OF surjective_pairing])

context bpf_kernel_laws
begin

lemma vma_block_update:
  "vma_update K t \<lparr>prefixlen = VMA_BLOCK_PREFIX, key_addr = bswap64 a\<rparr> w f = (r, u) \<Longrightarrow>
     target_pid_map (kview K u) = target_pid_map (kview K t) \<and> policy_registry (kview K u) = policy_registry (kview K t) \<and>
     inner_policy (kview K u) = inner_policy (kview K t) \<and> cfi_policy (kview K u) = cfi_policy (kview K t)"
  by (drule vma_update_cases(2)) (metis (no_types, lifting) map_view.select_convs map_view.surjective map_view.update_convs(4))

text \<open>The child is not tracked by any of these steps.\<close>

lemma fills_pids: "fills K fd s s' \<Longrightarrow> target_pid_map (kview K s') = target_pid_map (kview K s)"
proof (induction rule: fills.induct)
  case (create s t h u)
  then show ?case using create_Some [of t _ u] create_None [of t u] by (cases h) auto
next
  case (policy s t h k v f r u)
  then show ?case using only_inner_fields(1) [OF policy_update_only] by metis
next
  case (registry s t m h f r u)
  then show ?case using registry_ok [of t m h f u] registry_fail [of t m h f r u] by (cases "r = 0") auto
next
  case (vma s t a w f r u)
  then show ?case using vma_block_update by metis
next
  case (cfi s t k rg f r u)
  then show ?case using cfi_ok [of t k rg f u] cfi_fail [of t k rg f r u] by (cases "r = 0") auto
qed simp

text \<open>All keys of the trie stay keys of blocks.\<close>

lemma fills_uniform:
  "fills K fd s s' \<Longrightarrow> \<forall>q \<in> dom (vma_entries K s). length q = 44 \<Longrightarrow>
     \<forall>q \<in> dom (vma_entries K s'). length q = 44"
proof (induction rule: fills.induct)
  case (create s t h u)
  then show ?case using create_Some [of t _ u] create_None [of t u] by (cases h) auto
next
  case (policy s t h k v f r u)
  then show ?case using policy_update_cases(2) by metis
next
  case (registry s t m h f r u)
  then show ?case using registry_ok [of t m h f u] registry_fail [of t m h f r u] by (cases "r = 0") auto
next
  case (vma s t a w f r u)
  then show ?case using vma_update_cases(1) [of t a w f r u] by (auto split: if_splits)
next
  case (cfi s t k rg f r u)
  then show ?case using cfi_ok [of t k rg f u] cfi_fail [of t k rg f r u] by (cases "r = 0") auto
qed simp

text \<open>The main policy stays registered and unchanged.\<close>

lemma fills_main:
  "fills K fd s s' \<Longrightarrow> policy_registry (kview K s) MODULE_MAIN = Some fd \<Longrightarrow>
     policy_registry (kview K s') MODULE_MAIN = Some fd \<and>
     inner_policy (kview K s') fd = inner_policy (kview K s) fd"
proof (induction rule: fills.induct)
  case (create s t h u)
  then show ?case using create_Some [of t _ u] create_None [of t u] by (cases h) (auto simp: ran_def)
next
  case (policy s t h k v f r u)
  then show ?case using only_inner_fields(2,5) [OF policy_update_only] by metis
next
  case (registry s t m h f r u)
  then show ?case using registry_ok [of t m h f u] registry_fail [of t m h f r u] by (cases "r = 0") auto
next
  case (vma s t a w f r u)
  then show ?case using vma_block_update by metis
next
  case (cfi s t k rg f r u)
  then show ?case using cfi_ok [of t k rg f u] cfi_fail [of t k rg f r u] by (cases "r = 0") auto
qed simp

text \<open>A map created while the main policy is registered is another map.\<close>

lemma create_other:
  "bpf_create_map K s = (Some h, s') \<Longrightarrow> policy_registry (kview K s) MODULE_MAIN = Some fd \<Longrightarrow> h \<noteq> fd"
  using create_Some [of s h s'] by (auto simp: ran_def)

lemma libc_policy_fills:
  assumes "policy_registry (kview K s) MODULE_MAIN = Some fd"
    and "libc_policy K opened maps libc_base s \<in> {Proceed s', Cleanup s'}"
  shows "fills K fd s s'"
proof (cases "libc_base = 0")
  case True
  then show ?thesis using assms(2) by (simp add: libc_policy_def fills.stay)
next
  case False
  obtain ho s1 where c: "bpf_create_map K s = (ho, s1)" by (cases "bpf_create_map K s")
  have f1: "fills K fd s s1" using fills_one(1) [OF c] .
  show ?thesis
  proof (cases ho)
    case None
    then show ?thesis using assms(2) False c f1 by (simp add: libc_policy_def)
  next
    case (Some h)
    then have h: "h \<noteq> fd" using create_other c assms(1) by blast
    obtain r s2 where u: "registry_update K s1 MODULE_LIBC h BPF_ANY = (r, s2)"
      by (cases "registry_update K s1 MODULE_LIBC h BPF_ANY")
    have f2: "fills K fd s s2"
      by (rule fills.registry [OF f1 _ u]) (simp add: module_defs)
    show ?thesis
      using assms(2) False Some f2
      by (auto simp: libc_policy_def c u of_step_def split: if_splits option.splits
          intro: fills_trans [OF whitelist_ld_fills [OF h] fills_trans [OF libc_fallback_fills [OF h]]])
  qed
qed

lemma add_libraries_fills:
  "policy_registry (kview K s) MODULE_MAIN = Some fd \<Longrightarrow> 2 \<le> next_mod_id \<Longrightarrow>
     add_libraries K opened maps libs next_mod_id s = Some s' \<Longrightarrow> fills K fd s s'"
proof (induction libs arbitrary: next_mod_id s)
  case Nil
  then show ?case by (simp add: fills.stay)
next
  case (Cons lib libs)
  note main = Cons.prems(1)
  show ?case
  proof (cases "next_mod_id \<ge> 64")
    case True
    then show ?thesis using Cons.prems(3) by (simp add: fills.stay)
  next
    case False
    obtain ho s1 where c: "bpf_create_map K s = (ho, s1)" by (cases "bpf_create_map K s")
    have f1: "fills K fd s s1" using fills_one(1) [OF c] .
    show ?thesis
    proof (cases ho)
      case None
      then have "add_libraries K opened maps libs next_mod_id s1 = Some s'" using Cons.prems(3) False c by simp
      from Cons.IH [OF _ Cons.prems(2) this] fills_main [OF f1 main] f1 show ?thesis
        by (blast intro: fills_trans)
    next
      case (Some h)
      then have h: "h \<noteq> fd" using create_other c main by blast
      obtain r s2 where u: "registry_update K s1 next_mod_id h BPF_ANY = (r, s2)"
        by (cases "registry_update K s1 next_mod_id h BPF_ANY")
      have f2: "fills K fd s s2"
        by (rule fills.registry [OF f1 _ u]) (use Cons.prems(2) in \<open>auto simp: module_defs word_le_nat_alt\<close>)
      have go: "fills K fd s s'" if "fills K fd s t" "2 \<le> m" "add_libraries K opened maps libs m t = Some s'" for t m
        using Cons.IH [OF _ that(2,3)] fills_main [OF that(1) main] that(1) by (blast intro: fills_trans)
      have next2: "2 \<le> next_mod_id + 1"
        using Cons.prems(2) False by (simp add: word_le_nat_alt unat_word_ariths(1))
      show ?thesis
      proof (cases "r = 0")
        case False
        then show ?thesis using go [OF f2 Cons.prems(2)] Cons.prems(3) \<open>\<not> next_mod_id \<ge> 64\<close> c u Some by simp
      next
        case True
        then obtain n b s3 sites where p: "populate_vma_for_module K maps (base_name lib) next_mod_id s2 = Some (n, b, s3)"
          and rest: "add_libraries K opened maps libs (next_mod_id + 1) (snd (put_sites K h 1 BPF_ANY sites s3)) = Some s'"
          using Cons.prems(3) False c u Some by (auto split: option.splits)
        have "fills K fd s (snd (put_sites K h 1 BPF_ANY sites s3))"
          by (intro fills_trans [OF put_sites_fills [OF h]] fills_trans [OF populate_fills [OF p]] f2)
        from go [OF this next2 rest] show ?thesis .
      qed
    qed
  qed
qed

lemma library_policies_fills:
  "policy_registry (kview K s) MODULE_MAIN = Some fd \<Longrightarrow> library_policies K opened maps bin s = Some s' \<Longrightarrow>
     fills K fd s s'"
  using add_libraries_fills [of s fd MODULE_DYNAMIC_BASE]
  by (cases maps) (auto simp: library_policies_def fills.stay MODULE_DYNAMIC_BASE_def word_le_nat_alt)

lemma register_main_effect:
  assumes "register_main K entries b s = m"
  shows "case setup_phase m of
      Proceed s' \<Rightarrow> (\<exists>fd s2. main_map_fd m = Some fd \<and> load_entries K fd b entries s2 = (main_loaded m, s') \<and>
        policy_registry (kview K s') MODULE_MAIN = Some fd \<and> inner_policy (kview K s2) fd = Map.empty \<and>
        target_pid_map (kview K s') = target_pid_map (kview K s) \<and> vma_entries K s' = vma_entries K s)
    | Cleanup s' \<Rightarrow> target_pid_map (kview K s') = target_pid_map (kview K s)
    | _ \<Rightarrow> False"
proof -
  obtain ho s1 where c: "bpf_create_map K s = (ho, s1)" by (cases "bpf_create_map K s")
  show ?thesis
  proof (cases ho)
    case None
    then show ?thesis using assms c create_None [of s s1] by (auto simp: register_main_def)
  next
    case (Some fd)
    note c1 = create_Some [OF c [unfolded Some]]
    obtain r s2 where u: "registry_update K s1 MODULE_MAIN fd BPF_ANY = (r, s2)"
      by (cases "registry_update K s1 MODULE_MAIN fd BPF_ANY")
    show ?thesis
    proof (cases "r = 0")
      case False
      then show ?thesis using assms c u Some c1 registry_fail [OF u] by (auto simp: register_main_def)
    next
      case True
      obtain n s3 where l: "load_entries K fd b entries s2 = (n, s3)" by (cases "load_entries K fd b entries s2")
      note e = load_entries_effect [OF l]
      note o = only_inner_fields [of fd "kview K s2" "kview K s3"]
      show ?thesis
        using assms c u Some True l c1 registry_ok [OF u [unfolded True]] e o(1,2)
        by (auto simp: register_main_def intro!: exI [of _ s2])
    qed
  qed
qed

lemma later_phases_spare: "later_phases K opened maps binary entries b libc_base s \<noteq> Killed s'"
  by (auto simp: later_phases_def libc_policy_def and_then_def of_step_def split: option.splits prod.splits)

lemma later_phases_fills:
  assumes "policy_registry (kview K s2) MODULE_MAIN = Some fd"
    and "later_phases K opened maps binary entries b libc_base s2 \<in> {Proceed s', Cleanup s'}"
  shows "fills K fd s2 s'"
proof (cases "libc_policy K opened maps libc_base s2")
  case (Proceed s3)
  then have f3: "fills K fd s2 s3" using libc_policy_fills [OF assms(1), of opened maps libc_base s3] by simp
  note main3 = fills_main [OF f3 assms(1)]
  obtain s4 where s4: "library_policies K opened maps (base_name binary) s3 = Some s4"
    and s5: "cfi_setup K opened binary entries b s4 = Some s'"
    using assms(2) Proceed by (auto simp: later_phases_def and_then_def of_step_def split: option.splits)
  have "fills K fd s3 s4" using library_policies_fills main3 s4 by blast
  then show ?thesis using cfi_setup_fills [OF s5] f3 by (blast intro: fills_trans)
next
  case (Cleanup s3)
  then show ?thesis
    using assms(2) libc_policy_fills [OF assms(1), of opened maps libc_base s3]
    by (simp add: later_phases_def and_then_def)
qed (use assms(2) in \<open>simp_all add: later_phases_def and_then_def\<close>)

lemma setup_child_phases:
  "setup_child K opened maps binary entries b libc_base pid s =
     (case populate_modules K maps (base_name binary) libc_base s of
        None \<Rightarrow> \<lparr>main_map_fd = None, main_loaded = 0, setup_phase = Undefined\<rparr>
      | Some (lb, s1) \<Rightarrow>
          (let m = register_main K entries b s1 in
           m\<lparr>setup_phase := and_then (and_then (setup_phase m) (later_phases K opened maps binary entries b lb))
               (track_child K pid)\<rparr>))"
  by (cases "populate_modules K maps (base_name binary) libc_base s")
    (auto simp: setup_child_def later_phases_def and_then_assoc Let_def)

lemma setup_child_proceeds:
  assumes "setup_child K opened maps binary entries b libc_base pid s = m" and "setup_phase m = Proceed s'"
  shows "\<exists>fd s2 s3. main_map_fd m = Some fd \<and> load_entries K fd b entries s2 = (main_loaded m, s3) \<and>
    inner_policy (kview K s2) fd = Map.empty \<and>
    policy_registry (kview K s') MODULE_MAIN = Some fd \<and> inner_policy (kview K s') fd = inner_policy (kview K s3) fd \<and>
    target_pid_map (kview K s') = (target_pid_map (kview K s))(pid \<mapsto> 1)"
proof -
  obtain lb s1 where pm: "populate_modules K maps (base_name binary) libc_base s = Some (lb, s1)"
    using assms by (auto simp: setup_child_phases split: option.splits)
  let ?r = "register_main K entries b s1"
  obtain s3 s4 where p: "setup_phase ?r = Proceed s3" "later_phases K opened maps binary entries b lb s3 = Proceed s4"
      "track_child K pid s4 = Proceed s'"
    using assms by (auto simp: setup_child_phases pm and_then_def Let_def split: phase.splits)
  obtain fd s2 where r: "main_map_fd ?r = Some fd" "load_entries K fd b entries s2 = (main_loaded ?r, s3)"
      "policy_registry (kview K s3) MODULE_MAIN = Some fd" "inner_policy (kview K s2) fd = Map.empty"
      "target_pid_map (kview K s3) = target_pid_map (kview K s1)"
    using register_main_effect [OF refl, of entries b s1] p(1) by auto
  have later: "fills K fd s3 s4" using later_phases_fills [OF r(3)] p(2) by blast
  have "pid_update K s4 pid 1 BPF_ANY = (0, s')"
    using p(3) by (auto simp: track_child_def split: if_splits prod.splits)
  note t = pid_ok [OF this]
  have "target_pid_map (kview K s4) = target_pid_map (kview K s)"
    using fills_pids [OF later] fills_pids [OF populate_modules_fills [OF pm]] r(5) by simp
  then show ?thesis
    using r t fills_main [OF later r(3)] assms(1)
    by (intro exI [of _ fd] exI [of _ s2] exI [of _ s3]) (auto simp: setup_child_phases pm Let_def)
qed

lemma setup_child_cleanup:
  assumes "setup_phase (setup_child K opened maps binary entries b libc_base pid s) \<in> {Cleanup s', Killed s'}"
  shows "target_pid_map (kview K s') = target_pid_map (kview K s)"
proof -
  obtain lb s1 where pm: "populate_modules K maps (base_name binary) libc_base s = Some (lb, s1)"
    using assms by (auto simp: setup_child_phases split: option.splits)
  let ?r = "register_main K entries b s1"
  have s1: "target_pid_map (kview K s1) = target_pid_map (kview K s)"
    using fills_pids [OF populate_modules_fills [OF pm]] .
  note eff = register_main_effect [OF refl, of entries b s1]
  show ?thesis
  proof (cases "setup_phase ?r")
    case (Proceed s3)
    then obtain fd where r: "policy_registry (kview K s3) MODULE_MAIN = Some fd"
        "target_pid_map (kview K s3) = target_pid_map (kview K s1)" using eff by auto
    note f = later_phases_fills [OF r(1), of opened maps binary entries b lb]
    show ?thesis
    proof (cases "later_phases K opened maps binary entries b lb s3")
      case (Proceed s4)
      then have "track_child K pid s4 = Killed s'"
        using assms \<open>setup_phase ?r = Proceed s3\<close>
        by (auto simp: setup_child_phases pm and_then_def Let_def track_child_def split: if_splits prod.splits)
      then obtain e where "pid_update K s4 pid 1 BPF_ANY = (e, s')" "e \<noteq> 0"
        by (auto simp: track_child_def split: if_splits prod.splits)
      from pid_fail [OF this] show ?thesis using f [of s4] Proceed fills_pids r(2) s1 by simp
    next
      case (Cleanup s4)
      then have "s4 = s'"
        using assms \<open>setup_phase ?r = Proceed s3\<close> by (simp add: setup_child_phases pm and_then_def Let_def)
      then show ?thesis using f [of s'] Cleanup fills_pids r(2) s1 by simp
    qed (use assms \<open>setup_phase ?r = Proceed s3\<close> later_phases_spare in
        \<open>simp_all add: setup_child_phases pm and_then_def Let_def\<close>)
  next
    case (Cleanup s3)
    then show ?thesis using assms eff s1 by (simp add: setup_child_phases pm and_then_def Let_def)
  qed (use eff in simp_all)
qed

lemma put_sites_effect:
  assumes "put_sites K h val f xs s = (n, s')"
  shows "only_inner h (kview K s) (kview K s') \<and>
    (\<forall>k. inner_policy (kview K s') h k = inner_policy (kview K s) h k \<or>
       k \<in> set xs \<and> inner_policy (kview K s') h k = Some val \<and>
       (f = BPF_NOEXIST \<longrightarrow> inner_policy (kview K s) h k = None))"
  using assms
proof (induction xs arbitrary: s n)
  case Nil
  then show ?case by simp
next
  case (Cons x xs)
  let ?i = "\<lambda>t. inner_policy (kview K t) h"
  obtain r s1 where up: "policy_update K s h x val f = (r, s1)" by (cases "policy_update K s h x val f")
  then obtain m where rec: "put_sites K h val f xs s1 = (m, s')"
    using Cons.prems by (auto split: prod.splits)
  note IH = Cons.IH [OF rec]
  have i1: "?i s1 = (if r = 0 then (?i s)(x \<mapsto> val) else ?i s)" using policy_update_cases(1) [OF up] by simp
  have none: "r = 0 \<Longrightarrow> f = BPF_NOEXIST \<Longrightarrow> ?i s x = None" using policy_noexist [of s h x val] up by simp
  have "?i s' k = ?i s k \<or> k \<in> set (x # xs) \<and> ?i s' k = Some val \<and> (f = BPF_NOEXIST \<longrightarrow> ?i s k = None)" for k
  proof -
    have "?i s' k = ?i s1 k \<or> k \<in> set xs \<and> ?i s' k = Some val \<and> (f = BPF_NOEXIST \<longrightarrow> ?i s1 k = None)"
      using IH by blast
    then show ?thesis using none by (cases "k = x"; cases "r = 0") (auto simp: i1)
  qed
  then show ?case using only_inner_trans [OF policy_update_only [OF up]] IH by blast
qed

end

lemma library_path_length: "library_path bin line = Some p \<Longrightarrow> length p \<le> length line"
  by (auto simp: library_path_def path_field_def cut_line_def split: if_splits option.splits
      dest!: strchr_Some intro: order_trans [OF length_takeWhile_le])

lemma seen_libs_bound:
  "\<forall>l \<in> set lines. length l \<le> 511 \<Longrightarrow> distinct seen \<Longrightarrow> length seen \<le> 32 \<Longrightarrow>
     distinct (seen_libs bin lines seen) \<and> length (seen_libs bin lines seen) \<le> 32 \<and>
     set (seen_libs bin lines seen) \<subseteq> set seen \<union> {p. \<exists>l \<in> set lines. library_path bin l = Some p}"
proof (induction bin lines seen rule: seen_libs.induct)
  case (2 bin line lines seen)
  let ?seen = "case library_path bin line of None \<Rightarrow> seen
      | Some path \<Rightarrow> if path \<in> set seen then seen else seen @ [take 511 path]"
  show ?case
  proof (cases "length seen \<ge> 32")
    case False
    have here: "distinct ?seen \<and> length ?seen \<le> 32 \<and> set ?seen \<subseteq> set seen \<union> {p. library_path bin line = Some p}"
      using 2(2,3) False library_path_length [of bin line] by (auto split: option.splits)
    then have "distinct (seen_libs bin lines ?seen) \<and> length (seen_libs bin lines ?seen) \<le> 32 \<and>
        set (seen_libs bin lines ?seen) \<subseteq> set ?seen \<union> {p. \<exists>l \<in> set lines. library_path bin l = Some p}"
      using 2(1) [OF False] 2(2) by simp
    with here False show ?thesis by (simp del: split_paired_Ex) blast
  qed (use 2(3,4) in auto)
qed simp

subsection \<open>A concrete setup\<close>

text \<open>A statically linked program whose table has one entry, with no readable maps text.\<close>

definition ex_setup :: "ref_state child_setup" where
  "ex_setup = setup_child ref_kernel (\<lambda>_. OpenFailed) None ''./app'' [(0x401001, 1)] 0x400000 0 100 ref_empty"

lemma ex_setup_eq:
  "ex_setup = \<lparr>main_map_fd = Some 1, main_loaded = 1,
     setup_phase = Proceed (ref_empty\<lparr>ref_registry := [(1, 1)], ref_inner := (\<lambda>_. [])(1 := [(0x1001, policy_value 1)]),
       ref_next := 2, ref_pids := [(100, 1)]\<rparr>)\<rparr>"
  by (simp add: ex_setup_def setup_child_def populate_modules_def populate_vma_for_module_def register_main_def
      ref_kernel_def ref_empty_def alist_update_def module_defs and_then_def libc_policy_def of_step_def
      library_policies_def cfi_setup_def parse_sentinel_cfi_def setup_cfi_policy_def track_child_def Let_def
      numeral_2_eq_2 fun_upd_def cong: if_cong)

subsection \<open>Properties\<close>

text \<open>
  C4: When the setup goes through and the kernel accepted every entry (the count the loader prints), the
  child is tracked, the main policy is registered and it holds exactly the parsed entries as offsets from the load base, with their encoded numbers: nothing that
  the later phases do for libc, the dynamic linker, other libraries and caller ranges touches it.
\<close>

theorem setup_installs_main_policy:
  assumes "bpf_kernel_laws K" and "setup_child K opened maps binary entries b libc_base pid s = m"
    and "setup_phase m = Proceed s'" and "main_loaded m = length entries"
  shows "target_pid_map (kview K s') = (target_pid_map (kview K s))(pid \<mapsto> 1) \<and>
    (\<exists>fd. main_map_fd m = Some fd \<and> policy_registry (kview K s') MODULE_MAIN = Some fd \<and>
       inner_policy (kview K s') fd = map_of (rev (map (\<lambda>(site, nr). (site - b, policy_value nr)) entries)))"
proof -
  from bpf_kernel_laws.setup_child_proceeds [OF assms(1-3)] obtain fd s2 s3 where
    fd: "main_map_fd m = Some fd" "load_entries K fd b entries s2 = (main_loaded m, s3)"
      "inner_policy (kview K s2) fd = Map.empty" "policy_registry (kview K s') MODULE_MAIN = Some fd"
      "inner_policy (kview K s') fd = inner_policy (kview K s3) fd"
      "target_pid_map (kview K s') = (target_pid_map (kview K s))(pid \<mapsto> 1)"
    by blast
  have "inner_policy (kview K s3) fd = map_of (rev (map (\<lambda>(site, nr). (site - b, policy_value nr)) entries))"
    using bpf_kernel_laws.load_entries_effect [OF assms(1) fd(2)] fd(3) assms(4) by simp
  then show ?thesis using fd by auto
qed

theorem setup_installs_main_policy_witness:
  "\<exists>s'. setup_phase ex_setup = Proceed s' \<and> target_pid_map (kview ref_kernel s') 100 = Some 1"
proof -
  obtain s' where p: "setup_phase ex_setup = Proceed s'" by (simp add: ex_setup_eq)
  have "main_loaded ex_setup = length [(0x401001 :: u64, 1 :: int)]" by (simp add: ex_setup_eq)
  from setup_installs_main_policy [OF refk.bpf_kernel_laws_axioms ex_setup_def [symmetric] p this]
  show ?thesis using p by simp
qed

text \<open>
  C21: The full-text scan of libc only adds: every offset that the symbol passes bound, to a number or
  to none, keeps its value, and what the scan adds are wildcards.
\<close>

theorem libc_scan_keeps_bindings:
  assumes "bpf_kernel_laws K"
    and "whitelist_symbols K opened path h 8
      (map (\<lambda>(name, nr). (name, POLICY_FLAG_CHECK_NR OR ucast nr)) libc_syms) s = Some s1"
    and "whitelist_symbols K opened path h 4 (map (\<lambda>name. (name, 1)) cancel_syms) s1 = Some s2"
    and "libc_fallback K opened path h s = Some s'"
  shows "inner_policy (kview K s') h k = inner_policy (kview K s2) h k \<or>
    inner_policy (kview K s2) h k = None \<and> inner_policy (kview K s') h k = Some 1"
proof -
  from assms(2-4) obtain sites n where "put_sites K h 1 BPF_NOEXIST sites s2 = (n, s')"
    by (auto simp: libc_fallback_def intro: prod_eqI split: option.splits) (metis prod.collapse)
  from bpf_kernel_laws.put_sites_effect [OF assms(1) this] show ?thesis by auto
qed

text \<open>
  A libc without symbols, with one \<open>syscall\<close> opcode whose offset is bound to number 1: the scan
  finds it and leaves it bound.
\<close>

theorem libc_scan_keeps_bindings_witness:
  "\<exists>s'. scan_elf_text_for_syscalls (\<lambda>_. ElfOpened (ex_elf\<lparr>e_scns := [ex_text]\<rparr>)) ''/lib/libc.so.6'' 512 = Some [0x401001] \<and>
    libc_fallback ref_kernel (\<lambda>_. ElfOpened (ex_elf\<lparr>e_scns := [ex_text]\<rparr>)) ''/lib/libc.so.6'' 1
      (ref_empty\<lparr>ref_inner := (\<lambda>_. [(0x401001, 0x100000001)])\<rparr>) = Some s' \<and>
    inner_policy (kview ref_kernel s') 1 0x401001 = Some 0x100000001"
proof -
  let ?s = "ref_empty\<lparr>ref_inner := (\<lambda>_. [(0x401001, 0x100000001)])\<rparr>" and ?o = "\<lambda>_ :: string. ElfOpened (ex_elf\<lparr>e_scns := [ex_text]\<rparr>)"
  have r: "resolve_libc_syscall_sites ?o p nm n = Some []" for p nm n
    by (simp add: resolve_libc_syscall_sites_def ex_text_def SHT_PROGBITS_def SHT_SYMTAB_def SHT_DYNSYM_def)
  have w: "whitelist_symbols K ?o p h n ns s = Some s" for K :: "ref_state bpf_kernel" and p h n ns s
    by (induction ns) (auto simp: r)
  have sc: "scan_elf_text_for_syscalls ?o ''/lib/libc.so.6'' 512 = Some [0x401001]"
    using ex_text_exec by (simp add: scan_elf_eq [of ?o _ "ex_elf\<lparr>e_scns := [ex_text]\<rparr>"] section_sites_def) (simp add: ex_text_def)
  obtain s' where s': "libc_fallback ref_kernel ?o ''/lib/libc.so.6'' 1 ?s = Some s'"
    by (simp add: libc_fallback_def w sc)
  from libc_scan_keeps_bindings [OF refk.bpf_kernel_laws_axioms w w this, of "0x401001"] sc s' show ?thesis
    by (auto simp: ref_kernel_def ref_view_def)
qed

text \<open>
  C29: The libraries that get a policy of their own are at most 32, each once, and each is the path of
  a line of the maps text that the filters admit.
\<close>

theorem discovered_libraries_bounded:
  "distinct (seen_libs bin (fgets_lines 512 content) []) \<and>
   length (seen_libs bin (fgets_lines 512 content) []) \<le> 32 \<and>
   set (seen_libs bin (fgets_lines 512 content) []) \<subseteq>
     {p. \<exists>l \<in> set (fgets_lines 512 content). library_path bin l = Some p}"
  using seen_libs_bound [of "fgets_lines 512 content" "[]" bin] length_fgets_lines [of _ 512 content] by auto

end
