(* ===== verification/LoaderMain.thy ===== *)
theory LoaderMain
  imports Enforcer LoaderPolicy "HOL-Library.Monad_Syntax"
begin

text \<open>
  \<open>src/runtime/loader.c\<close>, the command: the command line, the start of the child under
  \<open>ptrace\<close>, the wait for libc, the hand-over to \<open>setup_child\<close>, and the monitoring that follows with
  its signal handlers. What the loader gets from the system during one run (results of calls, the
  successive contents of \<open>/proc/<pid>/maps\<close>, wait statuses) is the record \<open>loader_env\<close>; the
  monitoring is a step relation whose steps are the signals and the turns of the waiting loop.
\<close>

subsection \<open>Command line\<close>

record cli_opts =
  opt_audit :: bool
  g_enforce_mode :: u32
  opt_argv :: "string list"

datatype cli = CliHelp | CliVersion | CliNoBinary | CliRun cli_opts

fun parse_args :: "string list \<Rightarrow> bool \<Rightarrow> u32 \<Rightarrow> cli" where
  "parse_args [] audit enforce = CliNoBinary"
| "parse_args (a # as) audit enforce =
     (if a = ''--help'' \<or> a = ''-h'' then CliHelp
      else if a = ''--version'' \<or> a = ''-v'' then CliVersion
      else if a = ''--audit'' then parse_args as True enforce
      else if a = ''--permissive'' then parse_args as True ENFORCE_PERMISSIVE
      else if a = ''--enforce=kill'' then parse_args as audit ENFORCE_KILL
      else if a = ''--enforce=permissive'' then parse_args as True ENFORCE_PERMISSIVE
      else if a = ''--enforce=term'' then parse_args as audit ENFORCE_TERM
      else CliRun \<lparr>opt_audit = audit, g_enforce_mode = enforce, opt_argv = a # as\<rparr>)"

definition usage_options :: "(string \<times> string) list" where
  "usage_options =
     [(''--help'', ''Show this help message''),
      (''--version'', ''Show version''),
      (''--audit'', ''Enable real-time audit event printing''),
      (''--fexit'', ''Enable post-syscall return value auditing''),
      (''--permissive'', ''Log violations but do not kill (audit-only)''),
      (''--enforce=MODE'', ''Enforcement: kill (default), permissive, term''),
      (''--watch-dlopen'', ''Monitor for dlopen() and extend policy at runtime''),
      (''--cgroup=PATH'', ''Restrict enforcement to processes in this cgroup v2''),
      (''--audit-format=FMT'', ''Output format: text (default), json''),
      (''--audit-target=TGT'', ''Output target: stdout (default), syslog''),
      (''--learn'', ''Learning mode: record syscall profile, generate policy''),
      (''--shadow-cfi'', ''Enable shadow stack CFI validation in kernel''),
      (''--system-wide'', ''Enforce fallback policy for ALL processes''),
      (''--surface'', ''Print kernel attack surface report and exit''),
      (''--tpm'', ''Use TPM2-backed key for signature verification'')]"

definition print_usage :: "string \<Rightarrow> string list" where
  "print_usage prog =
     [''Sentinel-CC Loader v'' @ SENTINEL_VERSION @ newline @ newline,
      ''Usage: '' @ prog @ '' [options] <binary> [args...]'' @ newline @ newline,
      ''Options:'' @ newline] @
     map (\<lambda>(opt, what). ''  '' @ pad_right 22 opt @ what @ newline) usage_options @
     [newline @ ''Enforcement Modes:'' @ newline,
      ''  kill        SIGKILL on violation (default, fail-closed)'' @ newline,
      ''  permissive  Log violation but allow syscall (for policy development)'' @ newline,
      ''  term        SIGTERM on violation (allows graceful shutdown handlers)'' @ newline,
      newline @ ''Example:'' @ newline,
      ''  sudo '' @ prog @ '' ./victim'' @ newline,
      ''  sudo '' @ prog @ '' --audit --permissive ./victim_phase2'' @ newline,
      ''  sudo '' @ prog @ '' --audit --watch-dlopen --enforce=term ./app'' @ newline,
      ''  sudo '' @ prog @ '' --audit --audit-format=json --audit-target=syslog ./app'' @ newline]"

definition cli_output :: "string \<Rightarrow> cli \<Rightarrow> string list" where
  "cli_output prog c =
     (case c of
        CliHelp \<Rightarrow> print_usage prog
      | CliVersion \<Rightarrow> [''Sentinel-CC Loader v'' @ SENTINEL_VERSION @ newline]
      | _ \<Rightarrow> [])"

text \<open>
  The loader sets two of the read-only globals of the enforcer; the others keep the zero they are
  initialised with.
\<close>

definition loader_config :: "cli_opts \<Rightarrow> bpf_config" where
  "loader_config opts =
     \<lparr>audit_mode = (if opt_audit opts then 1 else 0), fexit_mode = 0, enforce_mode = g_enforce_mode opts,
      learn_mode = 0, shadow_cfi = 0, system_wide = 0, cgroup_filter = 0\<rparr>"

subsection \<open>Audit output\<close>

definition action_str :: "u8 \<Rightarrow> string" where
  "action_str action =
     (if action = EVENT_ALLOW then ''ALLOW''
      else if action = EVENT_BLOCK then ''BLOCK''
      else if action = EVENT_CFI_OK then ''ALLOW+CFI''
      else if action = EVENT_CFI_FAIL then ''CFI-FAIL''
      else if action = EVENT_NR_MISMATCH then ''NR-MISMATCH''
      else if action = EVENT_FORK_TRACK then ''FORK-TRACK''
      else ''UNKNOWN'')"

definition audit_line :: "audit_event \<Rightarrow> string" where
  "audit_line e =
     ''['' @ action_str (ev_action e) @ ''] TID='' @ show_dec (unat (ev_tid e)) @
     '' SYS='' @ show_dec (unat (ev_syscall_nr e)) @ '' Off=0x'' @ show_hex (unat (ev_offset e)) @
     '' Mod='' @ show_dec (unat (ev_module_id e)) @ newline"

definition audit_event_handler :: "u8 list \<Rightarrow> string list" where
  "audit_event_handler data = (if length data < 48 then [] else [audit_line (read_audit_event data)])"

subsection \<open>Environment of the child\<close>

text \<open>The environment block is a list of strings \<open>NAME=value\<close>.\<close>

definition env_name_is :: "string \<Rightarrow> string \<Rightarrow> bool" where
  "env_name_is name var = starts_with (name @ ''='') var"

definition getenv :: "string \<Rightarrow> string list \<Rightarrow> string option" where
  "getenv name env = map_option (drop (length name + 1)) (find (env_name_is name) env)"

definition unsetenv :: "string \<Rightarrow> string list \<Rightarrow> string list" where
  "unsetenv name env = filter (\<lambda>var. \<not> env_name_is name var) env"

definition env_warnings :: "string list \<Rightarrow> string list" where
  "env_warnings env =
     concat (map (\<lambda>name. case getenv name env of
         Some (v # vs) \<Rightarrow> [''[WARN] '' @ name @ '' detected: '' @ (v # vs) @ '' (will be sanitized)'' @ newline]
       | _ \<Rightarrow> [])
       [''LD_PRELOAD'', ''LD_AUDIT'', ''LD_LIBRARY_PATH''])"

text \<open>
  The child's side of the fork: it drops the three variables, asks to be traced and executes the rest
  of the command line; when \<open>fexecve\<close> fails (\<open>exec_ok\<close>) it exits with code 1.
\<close>

datatype child_run = Execs "string list" "string list" | ExitsWith nat

definition child_exec :: "bool \<Rightarrow> cli_opts \<Rightarrow> string list \<Rightarrow> child_run" where
  "child_exec exec_ok opts env =
     (let env' = unsetenv ''LD_AUDIT'' (unsetenv ''LD_LIBRARY_PATH'' (unsetenv ''LD_PRELOAD'' env)) in
      if exec_ok then Execs (opt_argv opts) env' else ExitsWith 1)"

subsection \<open>Wait statuses\<close>

text \<open>The macros of \<open>sys/wait.h\<close> on the status word.\<close>

definition WIFEXITED :: "u32 \<Rightarrow> bool" where "WIFEXITED status \<longleftrightarrow> status AND 0x7F = 0"
definition WEXITSTATUS :: "u32 \<Rightarrow> nat" where "WEXITSTATUS status = unat (drop_bit 8 (status AND 0xFF00))"
definition WTERMSIG :: "u32 \<Rightarrow> nat" where "WTERMSIG status = unat (status AND 0x7F)"
definition WIFSIGNALED :: "u32 \<Rightarrow> bool" where "WIFSIGNALED status \<longleftrightarrow> status AND 0x7F \<notin> {0, 0x7F}"
definition WIFSTOPPED :: "u32 \<Rightarrow> bool" where "WIFSTOPPED status \<longleftrightarrow> status AND 0xFF = 0x7F"
definition WSTOPSIG :: "u32 \<Rightarrow> nat" where "WSTOPSIG status = WEXITSTATUS status"

definition SIGHUP :: nat where "SIGHUP = 1"
definition SIGINT :: nat where "SIGINT = 2"
definition SIGTRAP :: nat where "SIGTRAP = 5"
definition SIGTERM :: nat where "SIGTERM = 15"

lemmas signal_defs = SIGHUP_def SIGINT_def SIGTRAP_def SIGTERM_def

definition child_end_lines :: "u32 \<Rightarrow> string list" where
  "child_end_lines status =
     (if WIFEXITED status
      then [''[Loader] Child exited with code '' @ show_dec (WEXITSTATUS status) @ ''.'' @ newline]
      else if WIFSIGNALED status
      then [''[Loader] Child killed by signal '' @ show_dec (WTERMSIG status) @ ''.'' @ newline]
      else [])"

subsection \<open>The wait for libc\<close>

definition PTRACE_STEP_LIMIT :: nat where "PTRACE_STEP_LIMIT = 10000"

text \<open>
  \<open>maps k\<close> is the maps text when the child has been resumed \<open>k\<close> times and \<open>step k\<close> what \<open>waitpid\<close>
  stores after the next resumption, nothing when the call fails. The result holds the base of libc
  (0 when there is none), the number of resumptions and the last status.
\<close>

function wait_libc ::
  "(nat \<Rightarrow> string option) \<Rightarrow> (nat \<Rightarrow> u32 option) \<Rightarrow> u32 \<Rightarrow> nat \<Rightarrow> u64 \<times> nat \<times> u32" where
  "wait_libc maps step status steps =
     (let libc_base = get_libc_base (maps steps) in
      if libc_base \<noteq> 0 then (libc_base, steps, status)
      else
        (let status' = (case step steps of Some w \<Rightarrow> w | None \<Rightarrow> status) in
         if WIFEXITED status' then (0, Suc steps, status')
         else if Suc steps > PTRACE_STEP_LIMIT then (0, Suc steps, status')
         else wait_libc maps step status' (Suc steps)))"
  by pat_completeness auto
termination by (relation "measure (\<lambda>(_, _, _, steps). Suc PTRACE_STEP_LIMIT - steps)") auto

declare wait_libc.simps [simp del]

subsection \<open>From the command line to the released child\<close>

text \<open>
  The results of the calls of one run: the environment variables, \<open>open\<close> on the binary, libelf, the
  BPF skeleton, the ring-buffer consumer, \<open>fork\<close> as the parent sees it, whether the child can execute
  the binary, whether the first \<open>waitpid\<close> returns the child (it fails when a signal interrupts it), the
  status of a child that executed, and the child's maps and statuses while it is stepped.
\<close>

record loader_env =
  env_vars :: "string list"
  env_open :: "string \<Rightarrow> bool"
  env_elf :: "string \<Rightarrow> elf_open"
  env_skel_open :: bool
  env_skel_load :: bool
  env_skel_attach :: bool
  env_ringbuf :: bool
  env_fork :: int
  env_fexecve :: bool
  env_waited :: bool
  env_trap :: u32
  env_maps :: "nat \<Rightarrow> string option"
  env_step :: "nat \<Rightarrow> u32 option"

text \<open>
  How the start ends: \<open>main\<close> returns a code with no child left running, jumps to the clean-up label
  with the child stopped or killed, or goes on to monitor the released child. A launch is undefined
  where a step of it is, and when the first \<open>waitpid\<close> fails: the status it did not store is tested.
\<close>

datatype child_fate = NoChild | ChildStopped | ChildKilled

record 's launched =
  l_config :: bpf_config
  l_exec :: child_run
  l_pid :: u32
  l_polls :: bool
  l_main_fd :: map_handle
  l_status :: u32
  l_setup :: "'s child_setup"
  l_state :: 's

datatype 's launch =
    Returns int child_fate
  | CleansUp child_fate 's
  | Monitors "'s launched"
  | NotDefined

text \<open>The first status: a child that exits reports its code in the second byte.\<close>

definition exec_status :: "loader_env \<Rightarrow> child_run \<Rightarrow> u32" where
  "exec_status env c = (case c of Execs _ _ \<Rightarrow> env_trap env | ExitsWith code \<Rightarrow> push_bit 8 (of_nat code))"

definition binary_load_base :: "parsed_policy \<Rightarrow> u64" where
  "binary_load_base pp = (case pp_load_base pp of Some b \<Rightarrow> b | None \<Rightarrow> 0)"

definition release_child ::
  "'s bpf_kernel \<Rightarrow> loader_env \<Rightarrow> cli_opts \<Rightarrow> parsed_policy \<Rightarrow> child_run \<Rightarrow> u32 \<Rightarrow> 's \<Rightarrow> 's launch" where
  "release_child K env opts pp child trapped s =
     (let (libc_base, steps, status) = wait_libc (env_maps env) (env_step env) trapped 0;
          m = setup_child K (env_elf env) (env_maps env steps) (hd (opt_argv opts)) (pp_entries pp)
                (binary_load_base pp) libc_base (word_of_int (env_fork env)) s in
      case setup_phase m of
        Undefined \<Rightarrow> NotDefined
      | Cleanup s' \<Rightarrow> CleansUp ChildStopped s'
      | Killed s' \<Rightarrow> CleansUp ChildKilled s'
      | Proceed s' \<Rightarrow>
          (case main_map_fd m of
             None \<Rightarrow> NotDefined
           | Some fd \<Rightarrow>
               Monitors \<lparr>l_config = loader_config opts, l_exec = child, l_pid = word_of_int (env_fork env),
                  l_polls = (opt_audit opts \<and> env_ringbuf env), l_main_fd = fd, l_status = status,
                  l_setup = m, l_state = s'\<rparr>))"

definition launch :: "'s bpf_kernel \<Rightarrow> loader_env \<Rightarrow> string list \<Rightarrow> 's \<Rightarrow> 's launch" where
  "launch K env args s =
     (case parse_args args False ENFORCE_KILL of
        CliHelp \<Rightarrow> Returns 0 NoChild
      | CliVersion \<Rightarrow> Returns 0 NoChild
      | CliNoBinary \<Rightarrow> Returns 1 NoChild
      | CliRun opts \<Rightarrow>
          if \<not> env_open env (hd (opt_argv opts)) then Returns 1 NoChild
          else
            (case parse_sentinel_section (env_elf env) (hd (opt_argv opts)) MAX_POLICY_ENTRIES of
               None \<Rightarrow> NotDefined
             | Some pp \<Rightarrow>
                 if pp_count pp < 0 then Returns 1 NoChild
                 else if \<not> env_skel_open env then Returns 1 NoChild
                 else if \<not> env_skel_load env \<or> \<not> env_skel_attach env then Returns 1 NoChild
                 else if env_fork env < 0 then Returns 1 NoChild
                 else if \<not> env_waited env then NotDefined
                 else
                   (let child = child_exec (env_fexecve env) opts (env_vars env);
                        status = exec_status env child in
                    if \<not> (WIFSTOPPED status \<and> WSTOPSIG status = SIGTRAP) then Returns 1 ChildKilled
                    else release_child K env opts pp child status s)))"

subsection \<open>Signal handlers\<close>

datatype handler = ShutdownHandler | ReloadHandler

record sigaction =
  sa_handler :: handler
  sa_flags :: u32

definition SA_RESTART :: u32 where "SA_RESTART = 0x10000000"

definition install_signal_handlers :: "nat \<rightharpoonup> sigaction" where
  "install_signal_handlers =
     [SIGINT \<mapsto> \<lparr>sa_handler = ShutdownHandler, sa_flags = 0\<rparr>,
      SIGTERM \<mapsto> \<lparr>sa_handler = ShutdownHandler, sa_flags = 0\<rparr>,
      SIGHUP \<mapsto> \<lparr>sa_handler = ReloadHandler, sa_flags = 0\<rparr>]"

subsection \<open>Monitoring\<close>

text \<open>
  Once the child is released the loader polls (it has a ring buffer) or waits in \<open>waitpid\<close>. The
  child runs, is dead and not yet waited for, or is gone: its status was already taken, in the wait
  for libc. \<open>waitpid\<close> on a child that is gone fails at once.
\<close>

datatype mon_phase = Polling | Waiting | Ended int

datatype child_state = Running | Zombie u32 | Reaped

fun waitpid :: "child_state \<Rightarrow> u32 option \<times> child_state" where
  "waitpid (Zombie w) = (Some w, Reaped)"
| "waitpid Running = (None, Running)"
| "waitpid Reaped = (None, Reaped)"

record 's monitor =
  mon_state :: 's
  g_reload :: bool
  g_shutdown :: bool
  mon_status :: u32
  mon_phase :: mon_phase
  mon_out :: "string list"
  mon_child :: child_state
  mon_kills :: "nat list"
  g_skel :: bool

definition child_ended :: "u32 \<Rightarrow> bool" where
  "child_ended status \<longleftrightarrow> WIFEXITED status \<or> WIFSIGNALED status"

definition monitor_init :: "'s launched \<Rightarrow> bool \<Rightarrow> 's monitor" where
  "monitor_init l reload =
     \<lparr>mon_state = l_state l, g_reload = reload, g_shutdown = False, mon_status = l_status l,
      mon_phase = (if l_polls l then Polling else Waiting), mon_out = [],
      mon_child = (if child_ended (l_status l) then Reaped else Running), mon_kills = [], g_skel = True\<rparr>"

text \<open>The clean-up label: the BPF programs and maps are destroyed and \<open>main\<close> returns 0.\<close>

definition cleanup :: "'s monitor \<Rightarrow> 's monitor" where
  "cleanup m = m\<lparr>g_skel := False, mon_phase := Ended 0\<rparr>"

definition reload_policy ::
  "'s bpf_kernel \<Rightarrow> (string \<Rightarrow> elf_open) \<Rightarrow> string \<Rightarrow> map_handle \<Rightarrow> 's \<Rightarrow> 's option" where
  "reload_policy K opened binary fd s =
     (case parse_sentinel_section opened binary MAX_POLICY_ENTRIES of
        None \<Rightarrow> None
      | Some pp \<Rightarrow>
          if pp_count pp > 0 then Some (snd (load_entries K fd (binary_load_base pp) (pp_entries pp) s))
          else Some s)"

text \<open>
  One turn of the polling loop: \<open>opened\<close> is what libelf makes of the file when it is reloaded,
  \<open>records\<close> what the ring buffer delivers if it is polled.
\<close>

definition poll_turn ::
  "'s bpf_kernel \<Rightarrow> (string \<Rightarrow> elf_open) \<Rightarrow> string \<Rightarrow> map_handle \<Rightarrow> u8 list list \<Rightarrow> 's monitor \<Rightarrow>
     's monitor option" where
  "poll_turn K opened binary fd records m =
     (case (if g_reload m then reload_policy K opened binary fd (mon_state m) else Some (mon_state m)) of
        None \<Rightarrow> None
      | Some s \<Rightarrow>
          (let (wret, child) = waitpid (mon_child m);
               m1 = m\<lparr>mon_state := s, g_reload := False, mon_child := child,
                      mon_status := (case wret of Some w \<Rightarrow> w | None \<Rightarrow> mon_status m)\<rparr>;
               polled = m1\<lparr>mon_out := mon_out m @ concat (map audit_event_handler records)\<rparr> in
           case wret of
             Some w \<Rightarrow>
               if child_ended w then Some (cleanup (m1\<lparr>mon_out := mon_out m @ child_end_lines w\<rparr>)) else Some polled
           | None \<Rightarrow> Some polled))"

text \<open>The blocking \<open>waitpid\<close> returns, with a status or without one.\<close>

definition wait_returns :: "'s monitor \<Rightarrow> 's monitor" where
  "wait_returns m =
     (let (wret, child) = waitpid (mon_child m);
          status = (case wret of Some w \<Rightarrow> w | None \<Rightarrow> mon_status m) in
      cleanup (m\<lparr>mon_status := status, mon_child := child, mon_out := mon_out m @ child_end_lines status\<rparr>))"

definition signal_handler :: "nat \<Rightarrow> 's monitor \<Rightarrow> 's monitor" where
  "signal_handler sg m =
     m\<lparr>g_shutdown := True, mon_kills := mon_kills m @ [SIGTERM], mon_child := snd (waitpid (mon_child m)),
       g_skel := False, mon_phase := Ended (128 + int sg)\<rparr>"

definition sighup_handler :: "'s monitor \<Rightarrow> 's monitor" where
  "sighup_handler m = m\<lparr>g_reload := True\<rparr>"

text \<open>
  A signal is delivered: its handler runs, and when the loader is still blocked in \<open>waitpid\<close> after
  it, the call returns without a status unless the handler was installed to restart it.
\<close>

definition deliver :: "nat \<Rightarrow> 's monitor \<Rightarrow> 's monitor" where
  "deliver sg m =
     (case install_signal_handlers sg of
        None \<Rightarrow> m
      | Some act \<Rightarrow>
          (let m' = (case sa_handler act of ShutdownHandler \<Rightarrow> signal_handler sg m | ReloadHandler \<Rightarrow> sighup_handler m) in
           if mon_phase m' = Waiting \<and> mon_child m' = Running \<and> sa_flags act AND SA_RESTART = 0 then wait_returns m'
           else m'))"

text \<open>
  What can happen while the loader monitors: a signal arrives (between two turns of the polling loop:
  one that arrives within a turn is seen by the next), the child ends, the loop takes a turn unless
  the loader was told to shut down, or the blocking wait is over because the child does not run.
\<close>

datatype mon_event = Signal nat | ChildEnds u32 | Turn "string \<Rightarrow> elf_open" "u8 list list" | Waited

inductive mon_step :: "'s bpf_kernel \<Rightarrow> string \<Rightarrow> map_handle \<Rightarrow> 's monitor \<Rightarrow> mon_event \<Rightarrow> 's monitor \<Rightarrow> bool"
  for K :: "'s bpf_kernel" and binary fd where
  signal: "mon_phase m \<in> {Polling, Waiting} \<Longrightarrow> sg \<in> dom install_signal_handlers \<Longrightarrow>
    mon_step K binary fd m (Signal sg) (deliver sg m)"
| child_ends: "mon_phase m \<in> {Polling, Waiting} \<Longrightarrow> mon_child m = Running \<Longrightarrow> child_ended w \<Longrightarrow>
    mon_step K binary fd m (ChildEnds w) (m\<lparr>mon_child := Zombie w\<rparr>)"
| turn: "mon_phase m = Polling \<Longrightarrow> \<not> g_shutdown m \<Longrightarrow> poll_turn K opened binary fd records m = Some m' \<Longrightarrow>
    mon_step K binary fd m (Turn opened records) m'"
| waited: "mon_phase m = Waiting \<Longrightarrow> mon_child m \<noteq> Running \<Longrightarrow> mon_step K binary fd m Waited (wait_returns m)"

inductive_cases mon_stepE: "mon_step K binary fd m e m'"

inductive_simps mon_step_signal: "mon_step K binary fd m (Signal sg) m'"

inductive mon_reach :: "'s bpf_kernel \<Rightarrow> string \<Rightarrow> map_handle \<Rightarrow> 's monitor \<Rightarrow> 's monitor \<Rightarrow> bool"
  for K :: "'s bpf_kernel" and binary fd where
  here: "mon_reach K binary fd m m"
| next_step: "mon_reach K binary fd m m' \<Longrightarrow> mon_step K binary fd m' e m'' \<Longrightarrow> mon_reach K binary fd m m''"

subsection \<open>Lemmas on the parts\<close>

lemma wait_libc_outcome:
  assumes "wait_libc maps step status k = (b, n, status')" and "k \<le> PTRACE_STEP_LIMIT"
  shows "k \<le> n \<and> n \<le> Suc PTRACE_STEP_LIMIT \<and> (\<forall>i \<in> {k..<n}. get_libc_base (maps i) = 0) \<and>
    (if b = 0 then WIFEXITED status' \<or> n = Suc PTRACE_STEP_LIMIT else b = get_libc_base (maps n))"
  using assms
proof (induction maps step status k rule: wait_libc.induct)
  case (1 maps step status k)
  define w where "w = (case step k of Some w \<Rightarrow> w | None \<Rightarrow> status)"
  note eq = wait_libc.simps [of maps step status k, unfolded Let_def, folded w_def]
  show ?case
  proof (cases "get_libc_base (maps k) = 0 \<and> \<not> WIFEXITED w \<and> Suc k \<le> PTRACE_STEP_LIMIT")
    case True
    then have "wait_libc maps step w (Suc k) = (b, n, status')"
      using "1.prems"(1) by (simp add: eq split: if_splits)
    then have IH: "Suc k \<le> n \<and> n \<le> Suc PTRACE_STEP_LIMIT \<and> (\<forall>i \<in> {Suc k..<n}. get_libc_base (maps i) = 0) \<and>
        (if b = 0 then WIFEXITED status' \<or> n = Suc PTRACE_STEP_LIMIT else b = get_libc_base (maps n))"
      using "1.IH" [OF refl _ w_def] True by simp
    then have "{k..<n} = insert k {Suc k..<n}" by auto
    then show ?thesis using IH True by simp
  next
    case False
    then show ?thesis
      using "1.prems" by (auto simp: eq le_less_Suc_eq split: if_splits)
  qed
qed

definition is_option :: "string \<Rightarrow> bool" where
  "is_option a \<longleftrightarrow> a \<in> {''--audit'', ''--permissive'', ''--enforce=kill'', ''--enforce=permissive'', ''--enforce=term''}"

definition option_audits :: "string \<Rightarrow> bool" where
  "option_audits a \<longleftrightarrow> a \<in> {''--audit'', ''--permissive'', ''--enforce=permissive''}"

definition option_mode :: "string \<Rightarrow> u32 option" where
  "option_mode a = map_of [(''--permissive'', ENFORCE_PERMISSIVE), (''--enforce=kill'', ENFORCE_KILL),
     (''--enforce=permissive'', ENFORCE_PERMISSIVE), (''--enforce=term'', ENFORCE_TERM)] a"

lemma parse_args_option:
  "is_option a \<Longrightarrow> parse_args (a # as) audit mode =
     parse_args as (audit \<or> option_audits a) (case option_mode a of Some m \<Rightarrow> m | None \<Rightarrow> mode)"
  unfolding is_option_def by (elim insertE) (simp_all add: option_audits_def option_mode_def)

lemma parse_args_stop:
  "\<not> is_option a \<Longrightarrow> parse_args (a # as) audit mode =
     (if a \<in> {''--help'', ''-h''} then CliHelp else if a \<in> {''--version'', ''-v''} then CliVersion
      else CliRun \<lparr>opt_audit = audit, g_enforce_mode = mode, opt_argv = a # as\<rparr>)"
  by (simp add: is_option_def)

text \<open>The options of the usage text that the parser does not know are taken for the binary.\<close>

lemma usage_options_unknown:
  assumes "opt \<in> set (map fst usage_options) - {''--help'', ''--version'', ''--audit'', ''--permissive''}"
  shows "parse_args (opt # as) audit mode = CliRun \<lparr>opt_audit = audit, g_enforce_mode = mode, opt_argv = opt # as\<rparr>"
proof -
  have "\<not> is_option opt \<and> opt \<notin> {''--help'', ''-h'', ''--version'', ''-v''}"
    using assms unfolding usage_options_def is_option_def by (elim DiffE) (simp, elim disjE; simp)
  then show ?thesis by (simp add: parse_args_stop del: parse_args.simps)
qed

lemma parse_args_argv: "parse_args args audit mode = CliRun opts \<Longrightarrow> opt_argv opts = dropWhile is_option args"
proof (induction args arbitrary: audit mode)
  case (Cons a as)
  show ?case
  proof (cases "is_option a")
    case True
    then show ?thesis using Cons.prems by (simp only: parse_args_option Cons.IH dropWhile.simps if_True)
  next
    case False
    then show ?thesis using Cons.prems by (auto simp: parse_args_stop simp del: parse_args.simps split: if_splits)
  qed
qed simp

text \<open>Sanitising keeps the other variables.\<close>

definition ld_variable :: "string \<Rightarrow> bool" where
  "ld_variable var \<longleftrightarrow>
     env_name_is ''LD_PRELOAD'' var \<or> env_name_is ''LD_LIBRARY_PATH'' var \<or> env_name_is ''LD_AUDIT'' var"

lemma child_environment:
  "child_exec exec_ok opts env = Execs argv vars \<Longrightarrow>
     argv = opt_argv opts \<and> vars = filter (\<lambda>var. \<not> ld_variable var) env"
  by (auto simp: child_exec_def unsetenv_def ld_variable_def conj_ac split: if_splits)

lemma env_name_unique:
  assumes "env_name_is a var" and "env_name_is b var" and "CHR ''='' \<notin> set a" and "CHR ''='' \<notin> set b"
  shows "a = b"
proof -
  have "takeWhile (\<lambda>c. c \<noteq> CHR ''='') var = n" if n: "env_name_is n var" "CHR ''='' \<notin> set n" for n
  proof -
    obtain rest where "var = n @ CHR ''='' # rest"
      using n(1) by (auto simp: env_name_is_def starts_with_iff)
    then show ?thesis using n(2) by (auto simp: takeWhile_append)
  qed
  then show ?thesis using assms by metis
qed

lemma getenv_sanitised:
  assumes "CHR ''='' \<notin> set name"
  shows "getenv name (filter (\<lambda>var. \<not> ld_variable var) env) =
    (if name \<in> {''LD_PRELOAD'', ''LD_LIBRARY_PATH'', ''LD_AUDIT''} then None else getenv name env)"
proof (cases "name \<in> {''LD_PRELOAD'', ''LD_LIBRARY_PATH'', ''LD_AUDIT''}")
  case True
  have "ld_variable var" if "env_name_is name var" for var using True that by (auto simp: ld_variable_def)
  then show ?thesis using True by (auto simp: getenv_def find_None_iff)
next
  case False
  have keep: "\<not> ld_variable var" if "env_name_is name var" for var
    using env_name_unique [OF that _ assms] False by (fastforce simp: ld_variable_def)
  have "find (env_name_is name) (filter (\<lambda>var. \<not> ld_variable var) env) = find (env_name_is name) env"
    by (induction env) (use keep in auto)
  then show ?thesis using False by (simp add: getenv_def)
qed

lemma handler_prints:
  "length pad = 7 \<Longrightarrow> audit_event_handler (audit_event_bytes pad e) = [audit_line e]"
  by (cases e) (simp add: audit_event_handler_def audit_event_bytes_def read_audit_event_def)

text \<open>
  A reader of the line format: the outcome in brackets, then fields that each open with their label
  and hold a number in base 10, or 16 for the offset.
\<close>

definition read_field :: "nat \<Rightarrow> string \<Rightarrow> string \<Rightarrow> (nat \<times> string) option" where
  "read_field b label s =
     (if starts_with label s
      then (let t = drop (length label) s; ds = takeWhile (\<lambda>c. hex_value c \<noteq> None) t in
            if ds = [] then None else Some (read_base b ds, drop (length ds) t))
      else None)"

definition read_audit_line :: "string \<Rightarrow> (string \<times> nat \<times> nat \<times> nat \<times> nat) option" where
  "read_audit_line s =
     (if \<not> starts_with ''['' s then None
      else
        (let name = takeWhile (\<lambda>c. c \<noteq> CHR '']'') (tl s) in
         do {
           (tid, s1) \<leftarrow> read_field 10 ''] TID='' (drop (length name) (tl s));
           (nr, s2) \<leftarrow> read_field 10 '' SYS='' s1;
           (off, s3) \<leftarrow> read_field 16 '' Off=0x'' s2;
           (mdl, s4) \<leftarrow> read_field 10 '' Mod='' s3;
           if s4 = newline then Some (name, tid, nr, off, mdl) else None
         }))"

lemma show_base_nonempty: "show_base b n \<noteq> []"
  by (subst show_base.simps) simp

lemma read_field_show:
  assumes "b = 10 \<or> b = 16" and "hex_value c = None"
  shows "read_field b label (label @ show_base b n @ c # rest) = Some (n, c # rest)"
proof -
  have "2 \<le> b" "b \<le> 16" using assms(1) by auto
  note d = show_base_digits [OF this, of n]
  then have "takeWhile (\<lambda>c. hex_value c \<noteq> None) (show_base b n @ c # rest) = show_base b n"
    using assms(2) by (subst takeWhile_append2) auto
  then show ?thesis using d by (auto simp: read_field_def starts_with_iff show_base_nonempty)
qed

lemma action_str_plain: "CHR '']'' \<notin> set (action_str a)"
  by (simp add: action_str_def)

lemma read_printed:
  "read_audit_line (audit_line e) =
     Some (action_str (ev_action e), unat (ev_tid e), unat (ev_syscall_nr e), unat (ev_offset e), unat (ev_module_id e))"
proof -
  have hex: "hex_value (CHR '' '') = None" "hex_value (CHR 0x0A) = None" by (simp_all add: hex_value_def)
  have name: "takeWhile (\<lambda>c. c \<noteq> CHR '']'') (action_str (ev_action e) @ CHR '']'' # s) = action_str (ev_action e)" for s
    using action_str_plain [of "ev_action e"] by (subst takeWhile_append2) auto
  note fields = read_field_show [where b = 10 and label = "''] TID=''", OF _ hex(1), simplified]
    read_field_show [where b = 10 and label = "'' SYS=''", OF _ hex(1), simplified]
    read_field_show [where b = 16 and label = "'' Off=0x''", OF _ hex(1), simplified]
    read_field_show [where b = 10 and label = "'' Mod=''", OF _ hex(2), simplified]
  show ?thesis by (simp add: read_audit_line_def audit_line_def name fields newline_def)
qed

lemma reload_parsed:
  assumes "reload_policy K opened binary fd s = Some s'"
  shows "\<exists>pp. parse_sentinel_section opened binary MAX_POLICY_ENTRIES = Some pp \<and>
    (s' = s \<or> (\<exists>n. load_entries K fd (binary_load_base pp) (pp_entries pp) s = (n, s')))"
  using assms
  by (auto simp: reload_policy_def split: option.splits if_splits) (metis prod.collapse)

text \<open>
  What every reachable state of the monitoring keeps of the state it started from: only the main
  policy changes and it loses no offset, the programs stay attached until the loader ends, and the
  shutdown flag is only set by a handler that ends the process.
\<close>

definition mon_inv :: "'s bpf_kernel \<Rightarrow> map_handle \<Rightarrow> 's monitor \<Rightarrow> 's monitor \<Rightarrow> bool" where
  "mon_inv K fd m0 m \<longleftrightarrow> only_inner fd (kview K (mon_state m0)) (kview K (mon_state m)) \<and>
     dom (inner_policy (kview K (mon_state m0)) fd) \<subseteq> dom (inner_policy (kview K (mon_state m)) fd) \<and>
     (g_skel m \<longleftrightarrow> mon_phase m \<in> {Polling, Waiting}) \<and>
     (g_shutdown m \<longrightarrow> (\<exists>sg \<in> {SIGINT, SIGTERM}. mon_phase m = Ended (128 + int sg)))"

lemma ended_final: "mon_phase m = Ended code \<Longrightarrow> \<not> mon_step K binary fd m e m'"
  by (auto elim: mon_stepE)

lemma dom_handlers: "dom install_signal_handlers = {SIGHUP, SIGINT, SIGTERM}"
  by (auto simp: install_signal_handlers_def)

text \<open>What the three signals do.\<close>

lemma deliver_eq:
  "deliver SIGHUP m = (if mon_phase m = Waiting \<and> mon_child m = Running then wait_returns (sighup_handler m)
     else sighup_handler m)"
  "sg \<in> {SIGINT, SIGTERM} \<Longrightarrow> deliver sg m = signal_handler sg m"
  by (auto simp: deliver_def install_signal_handlers_def signal_defs sighup_handler_def signal_handler_def)

lemma deliver_cases:
  assumes "sg \<in> dom install_signal_handlers"
  shows "deliver sg m = sighup_handler m \<or> (mon_phase m = Waiting \<and> deliver sg m = wait_returns (sighup_handler m)) \<or>
    (sg \<in> {SIGINT, SIGTERM} \<and> deliver sg m = signal_handler sg m)"
  using assms unfolding dom_handlers by (auto simp: deliver_eq split: if_splits)

text \<open>
  The child: what a dead one reports is an exit or a signal, one that is gone stays gone, and a loader
  that waits has done nothing yet.
\<close>

definition child_inv :: "'s monitor \<Rightarrow> 's monitor \<Rightarrow> bool" where
  "child_inv m0 m \<longleftrightarrow> (\<forall>w. mon_child m = Zombie w \<longrightarrow> child_ended w) \<and>
     (mon_child m0 = Reaped \<longrightarrow> mon_child m = Reaped) \<and>
     (mon_phase m = Waiting \<longrightarrow> mon_state m = mon_state m0 \<and> mon_kills m = mon_kills m0 \<and> mon_status m = mon_status m0)"

lemmas monitor_defs = sighup_handler_def signal_handler_def wait_returns_def cleanup_def Let_def

context bpf_kernel_laws
begin

lemma load_entries_bound:
  assumes "load_entries K h b es s = (n, s')"
  shows "dom (inner_policy (kview K s) h) \<subseteq> dom (inner_policy (kview K s') h)"
proof
  fix k
  assume "k \<in> dom (inner_policy (kview K s) h)"
  moreover have "inner_policy (kview K s') h k = inner_policy (kview K s) h k \<or>
      inner_policy (kview K s') h k \<noteq> None"
    using load_entries_effect [OF assms] by auto
  ultimately show "k \<in> dom (inner_policy (kview K s') h)" by auto
qed

lemma reload_effect:
  assumes "reload_policy K opened binary fd s = Some s'"
  shows "only_inner fd (kview K s) (kview K s') \<and>
    dom (inner_policy (kview K s) fd) \<subseteq> dom (inner_policy (kview K s') fd)"
proof -
  from reload_parsed [OF assms] consider "s' = s"
    | b es n where "load_entries K fd b es s = (n, s')" by blast
  then show ?thesis
  proof cases
    case 2
    then show ?thesis using load_entries_effect [OF 2] load_entries_bound [OF 2] by blast
  qed simp
qed

lemma turn_inv:
  assumes "poll_turn K opened binary fd records m = Some m'" and "mon_phase m = Polling"
    and "mon_inv K fd m0 m"
  shows "mon_inv K fd m0 m'"
proof -
  obtain s where s: "s = mon_state m \<or> reload_policy K opened binary fd (mon_state m) = Some s"
    and st: "mon_state m' = s" "g_shutdown m' = g_shutdown m" "g_skel m' \<longleftrightarrow> mon_phase m' \<in> {Polling, Waiting}"
    using assms(1,2,3)
    by (auto simp: poll_turn_def mon_inv_def monitor_defs split: option.splits if_splits prod.splits)
  have "only_inner fd (kview K (mon_state m)) (kview K s) \<and>
      dom (inner_policy (kview K (mon_state m)) fd) \<subseteq> dom (inner_policy (kview K s) fd)"
    using s reload_effect [of opened binary fd "mon_state m" s] by (elim disjE) simp_all
  then show ?thesis
    using assms(2,3) st only_inner_trans [of fd "kview K (mon_state m0)" "kview K (mon_state m)" "kview K s"]
    by (simp add: mon_inv_def) blast
qed

lemma mon_reach_inv:
  assumes "mon_reach K binary fd m0 m" and "mon_inv K fd m0 m0"
  shows "mon_inv K fd m0 m"
  using assms
proof (induction rule: mon_reach.induct)
  case (next_step m0 m1 e m2)
  note inv = next_step.IH [OF next_step.prems]
  from next_step(2) show ?case
  proof (cases rule: mon_step.cases)
    case (signal sg)
    then show ?thesis using deliver_cases [OF signal(4), of m1] inv by (auto simp: mon_inv_def monitor_defs split: prod.splits)
  next
    case (turn opened records)
    then show ?thesis using turn_inv inv by blast
  qed (use inv in \<open>auto simp: mon_inv_def monitor_defs split: prod.splits\<close>)
qed simp

end

lemma waitpid_eq: "waitpid c = ((case c of Zombie w \<Rightarrow> Some w | _ \<Rightarrow> None), (if c = Running then Running else Reaped))"
  by (cases c) simp_all

lemma child_reach_inv: "mon_reach K binary fd m0 m \<Longrightarrow> child_inv m0 m0 \<Longrightarrow> child_inv m0 m"
proof (induction rule: mon_reach.induct)
  case (next_step m0 m1 e m2)
  note inv = next_step.IH [OF next_step.prems]
  from next_step(2) show ?case
  proof (cases rule: mon_step.cases)
    case (signal sg)
    then show ?thesis
      using deliver_cases [OF signal(4), of m1] inv by (auto simp: child_inv_def monitor_defs waitpid_eq split: if_splits)
  next
    case (turn opened records)
    then show ?thesis
      using inv by (auto simp: child_inv_def poll_turn_def cleanup_def waitpid_eq Let_def split: option.splits if_splits)
  qed (use inv in \<open>auto simp: child_inv_def monitor_defs waitpid_eq split: if_splits\<close>)
qed simp

lemma reaped_phases:
  assumes "mon_reach K binary fd m0 m"
    and "mon_child m0 = Reaped \<and> mon_phase m0 \<in> {Polling, Ended (128 + int SIGINT), Ended (128 + int SIGTERM)}"
  shows "mon_child m = Reaped \<and> mon_phase m \<in> {Polling, Ended (128 + int SIGINT), Ended (128 + int SIGTERM)}"
  using assms
proof (induction rule: mon_reach.induct)
  case (next_step m0 m1 e m2)
  note inv = next_step.IH [OF next_step.prems]
  from next_step(2) show ?case
  proof (cases rule: mon_step.cases)
    case (signal sg)
    then show ?thesis using deliver_cases [OF signal(4), of m1] inv by (auto simp: monitor_defs)
  next
    case (turn opened records)
    then show ?thesis using inv by (auto simp: poll_turn_def Let_def split: option.splits if_splits)
  qed (use inv in auto)
qed

lemma child_init_inv: "child_inv (monitor_init l reload) (monitor_init l reload)"
  by (simp add: child_inv_def monitor_init_def)

lemma monitor_init_inv: "mon_inv K fd (monitor_init l reload) (monitor_init l reload)"
  by (simp add: mon_inv_def monitor_init_def)

lemma exec_failure_seen: "\<not> WIFSTOPPED (exec_status env (ExitsWith 1))"
  by (simp add: exec_status_def WIFSTOPPED_def)

text \<open>The steps of a launch that gets to a child that executed.\<close>

lemma launch_releases:
  assumes "launch K env args s = r" and "r = Monitors l \<or> r = CleansUp fate s'"
  shows "\<exists>opts pp child w. parse_args args False ENFORCE_KILL = CliRun opts \<and>
    parse_sentinel_section (env_elf env) (hd (opt_argv opts)) MAX_POLICY_ENTRIES = Some pp \<and>
    child = child_exec True opts (env_vars env) \<and> release_child K env opts pp child w s = r"
proof -
  obtain opts pp child where o: "parse_args args False ENFORCE_KILL = CliRun opts"
      "parse_sentinel_section (env_elf env) (hd (opt_argv opts)) MAX_POLICY_ENTRIES = Some pp"
      "child = child_exec (env_fexecve env) opts (env_vars env)" "WIFSTOPPED (exec_status env child)"
      "release_child K env opts pp child (exec_status env child) s = r"
    using assms by (auto simp: launch_def Let_def split: cli.splits if_splits option.splits)
  have "env_fexecve env" using o(3,4) exec_failure_seen by (auto simp: child_exec_def split: if_splits)
  with o show ?thesis by auto
qed

lemma launch_monitors:
  assumes "launch K env args s = Monitors l"
  shows "\<exists>opts pp libc_base n. parse_args args False ENFORCE_KILL = CliRun opts \<and>
    parse_sentinel_section (env_elf env) (hd (opt_argv opts)) MAX_POLICY_ENTRIES = Some pp \<and>
    l_setup l = setup_child K (env_elf env) (env_maps env n) (hd (opt_argv opts)) (pp_entries pp)
      (binary_load_base pp) libc_base (l_pid l) s \<and>
    setup_phase (l_setup l) = Proceed (l_state l) \<and> main_map_fd (l_setup l) = Some (l_main_fd l) \<and>
    l_config l = loader_config opts \<and> l_polls l = (opt_audit opts \<and> env_ringbuf env) \<and>
    l_exec l = child_exec True opts (env_vars env)"
proof -
  obtain opts pp child t where o: "parse_args args False ENFORCE_KILL = CliRun opts"
      "parse_sentinel_section (env_elf env) (hd (opt_argv opts)) MAX_POLICY_ENTRIES = Some pp"
      "child = child_exec True opts (env_vars env)" "release_child K env opts pp child t s = Monitors l"
    using launch_releases [OF assms] by blast
  obtain b n w where w: "wait_libc (env_maps env) (env_step env) t 0 = (b, n, w)"
    by (cases "wait_libc (env_maps env) (env_step env) t 0")
  show ?thesis
    using o by (intro exI [of _ opts] exI [of _ pp] exI [of _ b] exI [of _ n])
      (auto simp: release_child_def w Let_def split: phase.splits option.splits)
qed

lemma launch_cleans_up:
  assumes "launch K env args s = CleansUp fate s'"
  shows "fate \<noteq> NoChild \<and> (\<exists>opened maps binary entries b libc_base pid.
    setup_phase (setup_child K opened maps binary entries b libc_base pid s) =
      (if fate = ChildKilled then Killed s' else Cleanup s'))"
proof -
  obtain opts pp child t where o: "release_child K env opts pp child t s = CleansUp fate s'"
    using launch_releases [OF assms] by blast
  obtain b n w where w: "wait_libc (env_maps env) (env_step env) t 0 = (b, n, w)"
    by (cases "wait_libc (env_maps env) (env_step env) t 0")
  let ?p = "setup_phase (setup_child K (env_elf env) (env_maps env n) (hd (opt_argv opts)) (pp_entries pp)
    (binary_load_base pp) b (word_of_int (env_fork env)) s)"
  have "fate \<noteq> NoChild \<and> ?p = (if fate = ChildKilled then Killed s' else Cleanup s')"
    using o by (auto simp: release_child_def w Let_def split: phase.splits option.splits)
  then show ?thesis by blast
qed

subsection \<open>A run\<close>

definition ex_env :: loader_env where
  "ex_env = \<lparr>env_vars = [''LD_PRELOAD=/tmp/x.so'', ''HOME=/root''], env_open = (\<lambda>_. True), env_elf = (\<lambda>_. BeginFailed), env_skel_open = True, env_skel_load = True,
     env_skel_attach = True, env_ringbuf = True, env_fork = 100, env_fexecve = True, env_waited = True,
     env_trap = 0x57F, env_maps = (\<lambda>_. None), env_step = (\<lambda>_. Some 0)\<rparr>"

lemma ex_wait: "wait_libc (\<lambda>_. None) (\<lambda>_. Some 0) w 0 = (0, 1, 0)"
  by (simp add: wait_libc.simps get_libc_base_def WIFEXITED_def)

lemma exec_trap: "WIFSTOPPED 0x57F" "WSTOPSIG 0x57F = SIGTRAP"
  by (simp_all add: WIFSTOPPED_def WSTOPSIG_def WEXITSTATUS_def signal_defs)

lemma ex_parsed:
  "\<exists>pp. parse_sentinel_section (\<lambda>_. ElfOpened ex_elf) path MAX_POLICY_ENTRIES = Some pp \<and> pp_count pp = 1 \<and>
    pp_entries pp = [(0x401001, 1)] \<and> pp_load_base pp = Some 0x400000"
proof -
  have "fst (sentinel_scan (e_scns ex_elf) (None, 0)) = Some (Data (concat (map policy_entry_bytes ex_table) @ []))"
    using sentinel_scan_last [of ex_sentinel "[ex_symtab]" "[ex_text]"] by (simp add: ex_elf_defs)
  from parse_table [of "\<lambda>_. ElfOpened ex_elf" path, OF refl _ this, of MAX_POLICY_ENTRIES] show ?thesis
    by (auto simp: ex_elf_defs ex_table_def decoded_nr_def PT_LOAD_def parse_entries_eq MAX_POLICY_ENTRIES_def)
qed

lemma ex_child:
  "setup_child ref_kernel (\<lambda>_. BeginFailed) None ''./app'' [] 0 0 100 ref_empty =
     \<lparr>main_map_fd = Some 1, main_loaded = 0,
      setup_phase = Proceed (ref_empty\<lparr>ref_registry := [(1, 1)], ref_next := 2, ref_pids := [(100, 1)]\<rparr>)\<rparr>"
  by (simp add: setup_child_def populate_modules_def populate_vma_for_module_def register_main_def
      ref_kernel_def ref_empty_def alist_update_def module_defs and_then_def libc_policy_def of_step_def
      library_policies_def cfi_setup_def parse_sentinel_cfi_def setup_cfi_policy_def track_child_def Let_def
      numeral_2_eq_2 fun_upd_def cong: if_cong)

lemma ex_launch:
  "launch ref_kernel ex_env (if audit then [''--audit'', ''./app''] else [''./app'']) ref_empty =
     Monitors \<lparr>l_config = loader_config \<lparr>opt_audit = audit, g_enforce_mode = ENFORCE_KILL, opt_argv = [''./app'']\<rparr>,
       l_exec = Execs [''./app''] [''HOME=/root''], l_pid = 100, l_polls = audit, l_main_fd = 1, l_status = 0,
       l_setup = setup_child ref_kernel (\<lambda>_. BeginFailed) None ''./app'' [] 0 0 100 ref_empty,
       l_state = ref_empty\<lparr>ref_registry := [(1, 1)], ref_next := 2, ref_pids := [(100, 1)]\<rparr>\<rparr>"
  by (cases audit) (simp_all add: launch_def ex_env_def parse_sentinel_section_def release_child_def ex_wait exec_trap
      ex_child binary_load_base_def child_exec_def unsetenv_def env_name_is_def exec_status_def)

definition ex_launched :: "ref_state launched" where
  "ex_launched = (case launch ref_kernel ex_env [''--audit'', ''./app''] ref_empty of Monitors l \<Rightarrow> l)"

lemma ex_launched_eq:
  "l_polls ex_launched" "l_status ex_launched = 0" "l_state ex_launched = ref_empty\<lparr>ref_registry := [(1, 1)], ref_next := 2, ref_pids := [(100, 1)]\<rparr>"
  using ex_launch [of True] by (simp_all add: ex_launched_def)

subsection \<open>Properties\<close>

text \<open>
  C5: Throughout the monitoring, whatever signals arrive, whatever the file contains when it is
  reloaded and however often, the tracked processes, the registry and every policy other than the
  main one stay as the setup left them, the main policy loses no offset, and the programs stay
  attached until the loader ends.
\<close>

theorem monitoring_keeps_policy:
  assumes "bpf_kernel_laws K" and "mon_reach K binary fd (monitor_init l reload) m"
  shows "target_pid_map (kview K (mon_state m)) = target_pid_map (kview K (l_state l)) \<and>
    policy_registry (kview K (mon_state m)) = policy_registry (kview K (l_state l)) \<and>
    (\<forall>h. h \<noteq> fd \<longrightarrow> inner_policy (kview K (mon_state m)) h = inner_policy (kview K (l_state l)) h) \<and>
    dom (inner_policy (kview K (l_state l)) fd) \<subseteq> dom (inner_policy (kview K (mon_state m)) fd) \<and>
    (g_skel m \<longleftrightarrow> mon_phase m \<in> {Polling, Waiting})"
  using bpf_kernel_laws.mon_reach_inv [OF assms monitor_init_inv] only_inner_fields
  by (auto simp: mon_inv_def monitor_init_def)

theorem monitoring_keeps_policy_witness:
  "target_pid_map (kview ref_kernel (mon_state (sighup_handler (monitor_init ex_launched False)))) 100 = Some 1"
proof -
  have "mon_reach ref_kernel ''./app'' 1 (monitor_init ex_launched False) (sighup_handler (monitor_init ex_launched False))"
    by (rule mon_reach.next_step [OF mon_reach.here, where e = "Signal SIGHUP"])
      (simp add: mon_step_signal dom_handlers deliver_eq monitor_init_def ex_launched_eq)
  from monitoring_keeps_policy [OF refk.bpf_kernel_laws_axioms this] show ?thesis
    by (simp add: ex_launched_eq ref_kernel_simps)
qed



text \<open>
  C40: A child that ended while the loader waited for libc, as a static binary does, is never seen to
  end: its status is already taken, \<open>waitpid\<close> fails in every turn and the polling goes on until the
  loader is interrupted or terminated.
\<close>

theorem reaped_child_polls_forever:
  assumes "l_polls l" and "WIFEXITED (l_status l) \<or> WIFSIGNALED (l_status l)"
    and "mon_reach K binary fd (monitor_init l reload) m"
  shows "mon_phase m = Polling \<or> mon_phase m \<in> {Ended (128 + int SIGINT), Ended (128 + int SIGTERM)}"
proof -
  let ?P = "\<lambda>m. mon_child m = Reaped \<and> mon_phase m \<in> {Polling, Ended (128 + int SIGINT), Ended (128 + int SIGTERM)}"
  have "?P (monitor_init l reload)" using assms(1,2) by (simp add: monitor_init_def child_ended_def)
  from reaped_phases [OF assms(3) this] show ?thesis by blast
qed

theorem reaped_child_polls_forever_witness:
  "\<exists>m. mon_step ref_kernel ''./app'' 1 (monitor_init ex_launched False) (Turn (\<lambda>_. BeginFailed) []) m \<and>
    mon_phase m \<in> {Polling, Ended (128 + int SIGINT), Ended (128 + int SIGTERM)}"
proof -
  have "\<exists>m. poll_turn ref_kernel (\<lambda>_. BeginFailed) ''./app'' 1 [] (monitor_init ex_launched False) = Some m"
    by (simp add: poll_turn_def monitor_init_def ex_launched_eq child_ended_def WIFEXITED_def Let_def)
  then obtain m where m: "mon_step ref_kernel ''./app'' 1 (monitor_init ex_launched False) (Turn (\<lambda>_. BeginFailed) []) m"
    using mon_step.turn [of "monitor_init ex_launched False" ref_kernel "\<lambda>_. BeginFailed" "''./app''" 1 "[]"]
    by (auto simp: monitor_init_def ex_launched_eq)
  from reaped_child_polls_forever [OF ex_launched_eq(1) _ mon_reach.next_step [OF mon_reach.here m]] m
  show ?thesis by (auto simp: ex_launched_eq WIFEXITED_def)
qed

text \<open>
  C28: Without an audit consumer a SIGHUP does not reload the policy: in every reachable state of the
  blocking wait with the child still running, the handler interrupts \<open>waitpid\<close>, because it is
  installed without \<open>SA_RESTART\<close>, and the only outcome is that the loader falls through to the
  clean-up, destroys the programs and ends with code 0. The policy is the one the setup left, no
  signal was sent to the child, and it goes on running.
\<close>

theorem sighup_abandons_child:
  assumes "mon_reach K binary fd (monitor_init l reload) m" and "mon_phase m = Waiting" and "mon_child m = Running"
  shows "\<exists>m'. (\<forall>m''. mon_step K binary fd m (Signal SIGHUP) m'' \<longleftrightarrow> m'' = m') \<and> mon_phase m' = Ended 0 \<and> \<not> g_skel m' \<and>
    mon_state m' = l_state l \<and> mon_kills m' = [] \<and> mon_child m' = Running"
proof (intro exI conjI allI)
  let ?m = "wait_returns (sighup_handler m)"
  have inv: "mon_state m = l_state l" "mon_kills m = []"
    using child_reach_inv [OF assms(1) child_init_inv] assms(2) by (simp_all add: child_inv_def monitor_init_def)
  show "mon_step K binary fd m (Signal SIGHUP) m'' \<longleftrightarrow> m'' = ?m" for m''
    using assms(2,3) by (simp add: mon_step_signal dom_handlers deliver_eq)
  show "mon_phase ?m = Ended 0" "\<not> g_skel ?m" "mon_state ?m = l_state l" "mon_kills ?m = []" "mon_child ?m = Running"
    using assms(3) inv by (simp_all add: monitor_defs)
qed

theorem sighup_abandons_child_witness:
  "\<exists>m. mon_step ref_kernel ''./app'' 1 (monitor_init (ex_launched\<lparr>l_polls := False, l_status := 0x57F\<rparr>) False) (Signal SIGHUP) m \<and>
    mon_phase m = Ended 0 \<and> mon_child m = Running"
proof -
  have "\<not> child_ended 0x57F" by (simp add: child_ended_def WIFEXITED_def WIFSIGNALED_def)
  then show ?thesis
    using sighup_abandons_child [OF mon_reach.here, of "ex_launched\<lparr>l_polls := False, l_status := 0x57F\<rparr>" False
        ref_kernel "''./app''" 1]
    by (auto simp: monitor_init_def)
qed



text \<open>
  C22: The command line is a run of known options, then the binary with its own arguments. Auditing
  and the enforcement mode are what the options say, the last mode given wins, and help or version
  is asked for only where the binary would be.
\<close>

theorem command_line:
  "parse_args args audit mode =
     (case dropWhile is_option args of
        [] \<Rightarrow> CliNoBinary
      | a # as \<Rightarrow>
          if a \<in> {''--help'', ''-h''} then CliHelp
          else if a \<in> {''--version'', ''-v''} then CliVersion
          else CliRun \<lparr>opt_audit = (audit \<or> list_ex option_audits (takeWhile is_option args)),
             g_enforce_mode = last (mode # List.map_filter option_mode (takeWhile is_option args)),
             opt_argv = a # as\<rparr>)"
proof (induction args arbitrary: audit mode)
  case (Cons a as)
  have last: "last (mode # List.map_filter option_mode (a # xs)) =
      last ((case option_mode a of Some m \<Rightarrow> m | None \<Rightarrow> mode) # List.map_filter option_mode xs)" for xs
    by (cases "option_mode a") (simp_all add: map_filter_simps)
  show ?case
  proof (cases "is_option a")
    case True
    then show ?thesis
      by (simp only: parse_args_option Cons.IH dropWhile.simps takeWhile.simps if_True last list_ex_iff list.set ball_simps bex_simps disj_assoc)
  next
    case False
    then show ?thesis by (simp add: parse_args_stop map_filter_simps del: parse_args.simps)
  qed
qed simp

text \<open>
  C27: A hot reload merges the new table into the main policy. An offset of the new table that was
  allowed before gets its new value, whatever room the map has; one that was not gets it too unless
  the kernel accepts none of its entries; and every other offset keeps the old value, so that a site
  that was removed from the table stays allowed.
\<close>

theorem hot_reload_merges:
  assumes "bpf_kernel_replace K" and "parse_sentinel_section opened binary MAX_POLICY_ENTRIES = Some pp"
    and "pp_count pp > 0"
    and "table = map_of (rev (map (\<lambda>(site, nr). (site - binary_load_base pp, policy_value nr)) (pp_entries pp)))"
  shows "\<exists>s'. reload_policy K opened binary fd s = Some s' \<and>
    (\<forall>k. case table k of
       None \<Rightarrow> inner_policy (kview K s') fd k = inner_policy (kview K s) fd k
     | Some v \<Rightarrow> inner_policy (kview K s') fd k = Some v \<or>
         inner_policy (kview K s) fd k = None \<and> inner_policy (kview K s') fd k = None)"
proof -
  obtain n s' where l: "load_entries K fd (binary_load_base pp) (pp_entries pp) s = (n, s')"
    by (cases "load_entries K fd (binary_load_base pp) (pp_entries pp) s")
  then have "reload_policy K opened binary fd s = Some s'" using assms(2,3) by (simp add: reload_policy_def)
  then show ?thesis unfolding assms(4) using bpf_kernel_replace.load_entries_replaces [OF assms(1) l] by blast
qed

text \<open>
  The old policy allowed any call at \<open>0x1001\<close> and one at \<open>0x2002\<close>; the new table binds the first to
  number 1 and no longer has the second.
\<close>

theorem hot_reload_merges_witness:
  "\<exists>s'. reload_policy ref_kernel (\<lambda>_. ElfOpened ex_elf) ''a.out'' 1
      (ref_empty\<lparr>ref_inner := (\<lambda>_. [(0x1001, 1), (0x2002, 1)])\<rparr>) = Some s' \<and>
    inner_policy (kview ref_kernel s') 1 0x1001 = Some (policy_value 1) \<and>
    inner_policy (kview ref_kernel s') 1 0x2002 = Some 1"
proof -
  let ?s = "ref_empty\<lparr>ref_inner := (\<lambda>_. [(0x1001, 1), (0x2002, 1)])\<rparr>"
  obtain pp where pp: "parse_sentinel_section (\<lambda>_. ElfOpened ex_elf) ''a.out'' MAX_POLICY_ENTRIES = Some pp"
      "pp_count pp > 0" "pp_entries pp = [(0x401001, 1)]" "binary_load_base pp = 0x400000"
    using ex_parsed [of "''a.out''"] by (auto simp: binary_load_base_def)
  from hot_reload_merges [OF refkr.bpf_kernel_replace_axioms pp(1,2) refl, of 1 ?s]
  obtain s' where s': "reload_policy ref_kernel (\<lambda>_. ElfOpened ex_elf) ''a.out'' 1 ?s = Some s'"
    and k: "\<And>k. case (if k = 0x1001 then Some (policy_value 1) else None) of
       None \<Rightarrow> inner_policy (kview ref_kernel s') 1 k = inner_policy (kview ref_kernel ?s) 1 k
     | Some v \<Rightarrow> inner_policy (kview ref_kernel s') 1 k = Some v \<or>
         inner_policy (kview ref_kernel ?s) 1 k = None \<and> inner_policy (kview ref_kernel s') 1 k = None"
    by (auto simp: pp)
  have "inner_policy (kview ref_kernel ?s) 1 = [0x1001 \<mapsto> 1, 0x2002 \<mapsto> 1]" by (simp add: ref_kernel_simps fun_upd_twist)
  then show ?thesis using s' k [of "0x1001"] k [of "0x2002"] by simp
qed

text \<open>
  C23: The wait for libc ends within 10001 resumptions of the child. It ends at the first moment the
  maps show libc, or with base 0 because the child exited or the limit was reached.
\<close>

theorem libc_wait_bounded:
  "case wait_libc maps step status 0 of (b, n, status') \<Rightarrow>
     n \<le> 10001 \<and> {..<n} \<subseteq> {i. get_libc_base (maps i) = 0} \<and>
     (if b = 0 then WIFEXITED status' \<or> n = 10001 else b = get_libc_base (maps n))"
  using wait_libc_outcome [of maps step status 0]
  by (cases "wait_libc maps step status 0") (auto simp: PTRACE_STEP_LIMIT_def)

text \<open>
  C38: A monitored child runs the binary with the arguments that follow it on the command line, and in
  the environment of the loader except for the three variables that steer the dynamic linker: these
  are unset in it, and every other variable has the value the loader sees.
\<close>

theorem child_environment_sanitised:
  assumes "launch K env args s = Monitors l"
  shows "\<exists>vars. l_exec l = Execs (dropWhile is_option args) vars \<and>
    (\<forall>name. CHR ''='' \<notin> set name \<longrightarrow> getenv name vars =
       (if name \<in> {''LD_PRELOAD'', ''LD_LIBRARY_PATH'', ''LD_AUDIT''} then None else getenv name (env_vars env)))"
proof -
  obtain opts where o: "parse_args args False ENFORCE_KILL = CliRun opts"
      "l_exec l = child_exec True opts (env_vars env)" using launch_monitors [OF assms] by blast
  obtain vars where e: "child_exec True opts (env_vars env) = Execs (opt_argv opts) vars"
    by (simp add: child_exec_def)
  have "opt_argv opts = dropWhile is_option args" by (rule parse_args_argv [OF o(1)])
  moreover have "vars = filter (\<lambda>var. \<not> ld_variable var) (env_vars env)" using child_environment [OF e] by blast
  ultimately show ?thesis using o(2) e getenv_sanitised by auto
qed

theorem child_environment_sanitised_witness:
  "\<exists>l vars. launch ref_kernel ex_env [''--audit'', ''./app''] ref_empty = Monitors l \<and> l_exec l = Execs [''./app''] vars \<and>
    getenv ''LD_PRELOAD'' vars = None \<and> getenv ''HOME'' vars = Some ''/root''"
proof -
  obtain l where l: "launch ref_kernel ex_env [''--audit'', ''./app''] ref_empty = Monitors l"
    using ex_launch [of True] by auto
  have "getenv ''HOME'' (env_vars ex_env) = Some ''/root''"
    by (simp add: getenv_def ex_env_def env_name_is_def)
  with child_environment_sanitised [OF l] l show ?thesis by (fastforce simp: is_option_def)
qed

text \<open>
  C37: The lines the consumer prints determine the records: whatever the padding bytes hold, one line
  per record, from which a reader of the format gets back the outcome, the task, the system call
  number, the offset and the module, and the six outcomes print differently.
\<close>

theorem audit_records_printed:
  assumes "length pad = 7"
  shows "map read_audit_line (concat (map (\<lambda>e. audit_event_handler (audit_event_bytes pad e)) es)) =
      map (\<lambda>e. Some (action_str (ev_action e), unat (ev_tid e), unat (ev_syscall_nr e), unat (ev_offset e),
        unat (ev_module_id e))) es \<and>
    inj_on action_str {EVENT_ALLOW, EVENT_BLOCK, EVENT_CFI_OK, EVENT_CFI_FAIL, EVENT_NR_MISMATCH, EVENT_FORK_TRACK}"
  using handler_prints [OF assms] read_printed by (simp add: action_str_def event_defs inj_on_def)

theorem audit_records_printed_witness:
  "map read_audit_line (audit_event_handler (audit_event_bytes (replicate 7 0xFF)
      \<lparr>timestamp_ns = 5, ev_tgid = 8, ev_tid = 9, syscall_rip = 0x401001, ev_offset = 0xA, ev_module_id = 1,
        ev_syscall_nr = 3, ev_action = EVENT_BLOCK\<rparr>)) =
    [Some (''BLOCK'', 9, 3, 10, 1)]"
  using audit_records_printed [of "replicate 7 0xFF"
      "[\<lparr>timestamp_ns = 5, ev_tgid = 8, ev_tid = 9, syscall_rip = 0x401001, ev_offset = 0xA, ev_module_id = 1,
        ev_syscall_nr = 3, ev_action = EVENT_BLOCK\<rparr>]"]
  by (simp add: action_str_def event_defs)

end
