(* ===== verification/Spec2Isabelle.thy ===== *)
theory Spec2Isabelle
  imports DumpTool LoaderMain
begin

text \<open>
  \<^bold>\<open>Sentinel-CC\<close>: per-binary system call policies, from the compiler to the kernel.

  \<^bold>\<open>The program.\<close> A compiler pass (\<open>src/compiler/SentinelPass.cpp\<close>) finds the system call sites of a
  module and emits a table of them into the object file. A loader (\<open>src/runtime/loader.c\<close>) starts a
  binary under \<open>ptrace\<close>, reads its table, fills BPF maps with the allowed offsets of the binary, of
  libc, of the dynamic linker and of the other mapped libraries, tracks the child and releases it. BPF
  programs at the entries of fifteen system calls (\<open>src/kernel/sentinel.bpf.c\<close>) look the calling
  instruction up in these maps and signal the process where the policy does not list it. An
  inspector (\<open>src/runtime/sentinel_dump.c\<close>) prints the tables. \<open>src/common/sentinel_shared.h\<close> holds
  the constants and layouts they share.

  \<^bold>\<open>The theories.\<close>

  \<^item> \<open>Prelude\<close>: machine integers, little-endian images, bit strings of map keys, and the locale
    \<open>struct_codec\<close> of a fixed-size struct with its byte image, interpreted for every struct of the
    program.
  \<^item> \<open>Shared\<close>: \<open>sentinel_shared.h\<close>.
  \<^item> \<open>BpfMaps\<close>: the maps. \<open>map_view\<close> is what the programs see of them; the record \<open>bpf_kernel\<close> holds
    the map operations the loader calls, and the locale \<open>bpf_kernel_laws\<close> what the kernel promises of
    them: a failed update changes nothing, a successful one its key, \<open>BPF_NOEXIST\<close> never overwrites, a
    new map is empty and not registered, the module map answers by longest prefix. The locale
    \<open>bpf_kernel_replace\<close> extends it with what \<open>BPF_ANY\<close> promises for a bound key. Both are interpreted
    on association lists of the declared capacities; theorems on the loader hold for every kernel
    with these laws.
  \<^item> \<open>Enforcer\<close>: \<open>sentinel.bpf.c\<close>. \<open>sentinel_check\<close> and all fifteen programs, with their effects on ring
    buffer, signals and trace; a specification of what a policy allows; the steps of a process under
    the programs. The check is complete and sound for the specification, in kill mode a live process
    has only entered allowed calls, a check leaves one record, the modes do what they say.
  \<^item> \<open>CStr\<close>: the C string functions, \<open>fgets\<close>, \<open>sscanf\<close> of addresses and \<open>printf\<close> of numbers.
  \<^item> \<open>CompilerPass\<close>: \<open>SentinelPass.cpp\<close>, on a view of the LLVM module: site recognition with the two
    regular expressions, number extraction, the emitted section.
  \<^item> \<open>ElfView\<close>: what libelf returns for a file.
  \<^item> \<open>DumpTool\<close>: \<open>sentinel_dump.c\<close>; it lists exactly the entries of emitted tables, in JSON mode as a
    well-formed array.
  \<^item> \<open>LoaderElf\<close>: \<open>parse_sentinel_section\<close>, \<open>parse_sentinel_cfi\<close>, \<open>resolve_libc_syscall_sites\<close>,
    \<open>scan_elf_text_for_syscalls\<close>: the parser recovers the table, the scans find exactly the system call
    instructions, of all executable sections or of one symbol.
  \<^item> \<open>ProcMaps\<close>: the readers of \<open>/proc/PID/maps\<close> and \<open>populate_vma_for_module\<close>: every address of a
    module resolves to it afterwards, until a module that shares a block is entered; when the loop
    ends.
  \<^item> \<open>CallGraph\<close>: \<open>build_libc_symtab\<close>, \<open>find_sym_at_addr\<close>, \<open>trace_libc_callgraph\<close>: the sorted table, the
    binary search against a linear one. An access outside the arrays of the walk is a fault, and none
    occurs; the walk is sound, and complete up to the depth limit of the source unless an array is
    full.
  \<^item> \<open>LoaderPolicy\<close>: what \<open>main\<close> does to the maps between the stop of the child and its release, and
    \<open>setup_cfi_policy\<close>. \<open>setup_child\<close> composes the phases in the order of the code.
  \<^item> \<open>LoaderMain\<close>: command line, the child's side of the fork with its environment, wait for libc,
    hand-over to \<open>setup_child\<close> (\<open>launch\<close>), and the monitoring as a step relation (\<open>mon_step\<close>) labelled
    with what happens: a signal, the end of the child, a turn of the polling loop, the return of
    \<open>waitpid\<close>. Whether a signal interrupts the blocking wait follows from the flags its handler is
    installed with.
  \<^item> This theory: properties of the whole, from a table entry to the verdict of the kernel.

  \<^bold>\<open>State and errors.\<close> The loader's memory of the maps is the state of the kernel parameter. Results are
  options where C would read out of bounds or loop forever (\<open>None\<close>), and the datatype \<open>phase\<close> where
  \<open>main\<close> goes on, jumps to its clean-up label or kills the child. Words keep their width: offsets,
  addresses and the wrap-around of their sums are 64-bit words, counts of type \<open>int\<close> go through
  \<open>c_int\<close>.

  \<^bold>\<open>Bounds.\<close> No fuel is used. The only loop that may not end, over the blocks of a module, is a
  \<open>partial_function\<close>, and a theorem says exactly when it ends. The wait for libc ends by the limit of
  10000 steps of the source, the walk of the call graph by the size of its queue.

  \<^bold>\<open>Parameters.\<close> LLVM, libelf, the kernel and the calls of the operating system are arguments: the
  module view, \<open>elf_open\<close>, \<open>bpf_kernel\<close>, \<open>loader_env\<close>. The state given to \<open>launch\<close> is the one after the
  skeleton was loaded. The maps text does not change while the child is stopped. Signals that arrive
  before the monitoring are only modelled by the results of the calls they interrupt.

  \<^bold>\<open>Not modelled.\<close> Progress messages of the loader (help, version, audit lines and the end of the child
  are); file descriptors and memory; the structs and maps that the sources declare and never use
  (\<open>watched_lib\<close>, the learning and library maps); the log output of the pass. Tests,
  benchmarks, evaluation scripts and build files are not part of the program.
\<close>

subsection \<open>From a table entry to the kernel's verdict\<close>

lemma offsets_table:
  "map_of (rev (map (\<lambda>(site, nr). (site - b, policy_value nr)) es)) k =
     map_option policy_value (map_of (rev es) (k + b))" for b k :: u64
proof -
  have "map_of (map (\<lambda>(site, nr). (site - b, policy_value nr)) xs) k = map_option policy_value (map_of xs (k + b))" for xs
    by (induction xs) (auto simp: diff_eq_eq)
  then show ?thesis by (simp add: rev_map)
qed

lemma flag_bit: "bit POLICY_FLAG_CHECK_NR i \<longleftrightarrow> i = 32"
  unfolding POLICY_FLAG_CHECK_NR_def bit_push_bit_iff by (auto simp: bit_1_iff)

lemma nr_permitted_value: "nr_permitted (policy_value n) nr \<longleftrightarrow> n < 0 \<or> nr = word_of_int n"
proof (cases "n < 0")
  case False
  have "bit (POLICY_FLAG_CHECK_NR OR ucast (word_of_int n :: u32)) 32"
    by (simp add: flag_bit bit_simps)
  moreover have "ucast (POLICY_FLAG_CHECK_NR OR ucast (word_of_int n :: u32)) = (word_of_int n :: u32)"
    by (rule bit_word_eqI) (auto simp: flag_bit bit_simps)
  ultimately show ?thesis using False by (auto simp: nr_permitted_def policy_value_def)
qed (simp add: nr_permitted_def policy_value_def)

text \<open>The verdict on a call whose instruction lies in a module, from the module's policy.\<close>

lemma site_allowed_at:
  assumes "regs_ip c = Some rip"
    and "vma_map m \<lparr>prefixlen = 64, key_addr = bswap64 (rip - 2)\<rparr> = Some \<lparr>module_id = i, base_addr = base\<rparr>"
    and "policy_registry m i = Some h"
  shows "site_allowed m c nr \<longleftrightarrow> (\<exists>val. inner_policy m h (rip - 2 - base) = Some val \<and> nr_permitted val nr) \<and>
    caller_permitted m c base (rip - 2 - base)"
  using assms by (auto simp: site_allowed_def)

lemma launched_scope:
  assumes "bpf_kernel_laws K" and "launch K env args s = Monitors l" and "ctx_tgid c = l_pid l"
  shows "in_scope (l_config l) (kview K (l_state l)) c"
proof -
  from launch_monitors [OF assms(2)] obtain opts pp b n where m: "l_setup l =
      setup_child K (env_elf env) (env_maps env n) (hd (opt_argv opts)) (pp_entries pp) (binary_load_base pp) b (l_pid l) s"
      "setup_phase (l_setup l) = Proceed (l_state l)" "l_config l = loader_config opts" by blast
  from bpf_kernel_laws.setup_child_proceeds [OF assms(1) m(1) [symmetric] m(2)] show ?thesis
    using assms(3) m(3) by (auto simp: in_scope_def loader_config_def)
qed

lemma launched_main_policy:
  assumes "bpf_kernel_laws K" and "launch K env args s = Monitors l"
    and "parse_args args False ENFORCE_KILL = CliRun opts"
    and "parse_sentinel_section (env_elf env) (hd (opt_argv opts)) MAX_POLICY_ENTRIES = Some pp"
    and "main_loaded (l_setup l) = length (pp_entries pp)"
  shows "policy_registry (kview K (l_state l)) MODULE_MAIN = Some (l_main_fd l) \<and>
    inner_policy (kview K (l_state l)) (l_main_fd l) k =
      map_option policy_value (map_of (rev (pp_entries pp)) (k + binary_load_base pp))"
proof -
  from launch_monitors [OF assms(2)] obtain o' p' b n where "parse_args args False ENFORCE_KILL = CliRun o'"
      "parse_sentinel_section (env_elf env) (hd (opt_argv o')) MAX_POLICY_ENTRIES = Some p'"
    and m': "l_setup l = setup_child K (env_elf env) (env_maps env n) (hd (opt_argv o')) (pp_entries p')
        (binary_load_base p') b (l_pid l) s"
      "setup_phase (l_setup l) = Proceed (l_state l)" "main_map_fd (l_setup l) = Some (l_main_fd l)" by blast
  then have "o' = opts" and "p' = pp" using assms(3,4) by auto
  note m = m' [unfolded this]
  from bpf_kernel_laws.setup_child_proceeds [OF assms(1) m(1) [symmetric] m(2)] m(3) obtain s2 s3 where
    e: "load_entries K (l_main_fd l) (binary_load_base pp) (pp_entries pp) s2 = (main_loaded (l_setup l), s3)"
      "inner_policy (kview K s2) (l_main_fd l) = Map.empty"
      "policy_registry (kview K (l_state l)) MODULE_MAIN = Some (l_main_fd l)"
      "inner_policy (kview K (l_state l)) (l_main_fd l) = inner_policy (kview K s3) (l_main_fd l)" by auto
  from bpf_kernel_laws.load_entries_effect [OF assms(1) e(1)] e(2-4) assms(5) show ?thesis
    by (simp add: offsets_table)
qed

subsection \<open>A launched binary\<close>

text \<open>The example file of the ELF readers, run by a loader whose kernel maps every address to it.\<close>

definition app_state :: ref_state where
  "app_state = ref_empty\<lparr>ref_vmas := [([], \<lparr>module_id = MODULE_MAIN, base_addr = 0x550000\<rparr>)]\<rparr>"

definition app_env :: "elf_view \<Rightarrow> loader_env" where
  "app_env e = ex_env\<lparr>env_elf := (\<lambda>_. ElfOpened e)\<rparr>"

definition app_maps :: "(u64 \<times> u64) list \<Rightarrow> ref_state" where
  "app_maps ps = app_state\<lparr>ref_registry := [(1, 1)], ref_next := 2, ref_pids := [(100, 1)],
     ref_inner := (\<lambda>_. [])(1 := ps)\<rparr>"

lemma app_setup:
  assumes "parse_sentinel_cfi opened ''./app'' MAX_POLICY_ENTRIES = []"
    and "setup_cfi_policy ref_kernel (opened ''./app'') (map fst entries) b = Some"
    and "load_entries ref_kernel 1 b entries (app_maps []\<lparr>ref_pids := []\<rparr>) = (n, app_maps ps\<lparr>ref_pids := []\<rparr>)"
  shows "setup_child ref_kernel opened None ''./app'' entries b 0 100 app_state =
    \<lparr>main_map_fd = Some 1, main_loaded = n, setup_phase = Proceed (app_maps ps)\<rparr>"
  using assms
  by (simp add: setup_child_def populate_modules_def populate_vma_for_module_def register_main_def
      ref_kernel_def app_state_def app_maps_def ref_empty_def alist_update_def module_defs and_then_def libc_policy_def of_step_def
      library_policies_def cfi_setup_def track_child_def Let_def
      numeral_2_eq_2 fun_upd_def base_name_def cong: if_cong)

lemma app_vma:
  "vma_map (kview ref_kernel (app_maps ps)) key = Some \<lparr>module_id = MODULE_MAIN, base_addr = 0x550000\<rparr>"
proof -
  have "lpm [[] \<mapsto> v] bits n = Some v" for v :: vma_value and bits :: "bool list" and n
    by (induction n) auto
  then show ?thesis by (simp add: ref_kernel_simps app_maps_def app_state_def)
qed

definition app_opts :: cli_opts where
  "app_opts = \<lparr>opt_audit = False, g_enforce_mode = ENFORCE_KILL, opt_argv = [''./app'']\<rparr>"

lemma app_args: "parse_args [''./app''] False ENFORCE_KILL = CliRun app_opts" "hd (opt_argv app_opts) = ''./app''"
  by (simp_all add: app_opts_def)

lemma app_launch:
  assumes "parse_sentinel_section (\<lambda>_. ElfOpened e) ''./app'' MAX_POLICY_ENTRIES = Some pp" and "0 \<le> pp_count pp"
    and "parse_sentinel_cfi (\<lambda>_. ElfOpened e) ''./app'' MAX_POLICY_ENTRIES = []"
    and "setup_cfi_policy ref_kernel (ElfOpened e) (map fst (pp_entries pp)) (binary_load_base pp) = Some"
    and "load_entries ref_kernel 1 (binary_load_base pp) (pp_entries pp) (app_maps []\<lparr>ref_pids := []\<rparr>) =
      (n, app_maps ps\<lparr>ref_pids := []\<rparr>)"
  shows "\<exists>l. launch ref_kernel (app_env e) [''./app''] app_state = Monitors l \<and> l_state l = app_maps ps \<and>
    l_pid l = 100 \<and> l_config l = loader_config app_opts \<and> main_loaded (l_setup l) = n"
proof -
  note child = app_setup [OF assms(3) _ assms(5)]
  show ?thesis
    using assms(1,2,4)
    by (simp add: launch_def app_args app_env_def ex_env_def release_child_def ex_wait exec_trap child
        child_exec_def exec_status_def Let_def del: parse_args.simps)
qed

lemma app_regs: "regs_ip (ex_ctx rip) = Some rip"
  by (simp add: ex_ctx_def)

lemma app_kills: "deny_signals (loader_config app_opts) = [9]"
  by (simp add: deny_signals_KILL loader_config_def app_opts_def)

subsection \<open>Properties of the whole system\<close>

text \<open>
  C1: The whole path from the table in the binary to the kernel: when the loader goes on to monitor
  and all entries were accepted, a system call that the child makes from the main binary is let
  through exactly when the table has an entry for its instruction (the last one counts) that binds no
  number or the number of the call, and the caller range of the offset, if any, holds; otherwise it
  gets the signal of the enforcement mode.
\<close>

theorem main_binary_enforced:
  assumes "bpf_kernel_laws K" and "launch K env args s = Monitors l"
    and "parse_args args False ENFORCE_KILL = CliRun opts"
    and "parse_sentinel_section (env_elf env) (hd (opt_argv opts)) MAX_POLICY_ENTRIES = Some pp"
    and "main_loaded (l_setup l) = length (pp_entries pp)"
    and "ctx_tgid c = l_pid l" and "regs_ip c = Some rip"
    and "vma_map (kview K (l_state l)) \<lparr>prefixlen = 64, key_addr = bswap64 (rip - 2)\<rparr> =
      Some \<lparr>module_id = MODULE_MAIN, base_addr = base\<rparr>"
  shows "signals (sentinel_check (l_config l) (kview K (l_state l)) c nr st) = signals st @
    (if (\<exists>n. map_of (rev (pp_entries pp)) (rip - 2 - base + binary_load_base pp) = Some n \<and> (n < 0 \<or> nr = word_of_int n)) \<and>
        caller_permitted (kview K (l_state l)) c base (rip - 2 - base)
     then [] else deny_signals (l_config l))"
proof -
  note main = launched_main_policy [OF assms(1-5), of "rip - 2 - base"]
  have "site_allowed (kview K (l_state l)) c nr \<longleftrightarrow>
      (\<exists>n. map_of (rev (pp_entries pp)) (rip - 2 - base + binary_load_base pp) = Some n \<and> (n < 0 \<or> nr = word_of_int n)) \<and>
      caller_permitted (kview K (l_state l)) c base (rip - 2 - base)"
    using site_allowed_at [OF assms(7,8) main [THEN conjunct1], of nr] main [THEN conjunct2]
    by (auto simp flip: nr_permitted_value)
  then show ?thesis
    using sentinel_check_signals [OF launched_scope [OF assms(1,2,6)], of nr st] by simp
qed

theorem main_binary_enforced_witness:
  "\<exists>l. launch ref_kernel (app_env ex_elf) [''./app''] app_state = Monitors l \<and>
    signals (sentinel_check (l_config l) (kview ref_kernel (l_state l)) (ex_ctx 0x551003) 1 ex_state) = [] \<and>
    signals (sentinel_check (l_config l) (kview ref_kernel (l_state l)) (ex_ctx 0x551003) 59 ex_state) = [9]"
proof -
  obtain pp where pp: "parse_sentinel_section (\<lambda>_. ElfOpened ex_elf) ''./app'' MAX_POLICY_ENTRIES = Some pp"
      "pp_count pp = 1" "pp_entries pp = [(0x401001, 1)]" "binary_load_base pp = 0x400000"
    using ex_parsed [of "''./app''"] by (auto simp: binary_load_base_def)
  have 1: "parse_sentinel_cfi (\<lambda>_. ElfOpened ex_elf) ''./app'' MAX_POLICY_ENTRIES = []"
    by (simp add: parse_sentinel_cfi_def ex_elf_defs)
  have 2: "setup_cfi_policy ref_kernel (ElfOpened ex_elf) offs b = Some" for offs b
    by (rule ext) (simp add: setup_cfi_policy_def ex_elf_defs scn_syms_def c_int_def note_cfi_symbol_def
        SHT_PROGBITS_def SHT_SYMTAB_def)
  have 3: "load_entries ref_kernel 1 0x400000 [(0x401001, 1)] (app_maps []\<lparr>ref_pids := []\<rparr>) =
      (1, app_maps [(0x1001, policy_value 1)]\<lparr>ref_pids := []\<rparr>)"
    by (simp add: ref_kernel_def app_maps_def alist_update_def)
  from app_launch [OF pp(1) _ 1 2, unfolded pp, OF _ 3] obtain l where
    l: "launch ref_kernel (app_env ex_elf) [''./app''] app_state = Monitors l"
      "l_state l = app_maps [(0x1001, policy_value 1)]" "l_pid l = 100" "l_config l = loader_config app_opts"
      "main_loaded (l_setup l) = 1" by auto
  have "caller_permitted (kview ref_kernel (l_state l)) c b off" for c b off
    by (simp add: caller_permitted_def l(2) app_maps_def app_state_def ref_empty_def ref_kernel_simps)
  then have "signals (sentinel_check (l_config l) (kview ref_kernel (l_state l)) (ex_ctx 0x551003) nr ex_state) =
      (if nr = 1 then [] else [9])" for nr
    using main_binary_enforced [OF refk.bpf_kernel_laws_axioms l(1) app_args(1), of pp "ex_ctx 0x551003" "0x551003"
        "0x550000" nr ex_state]
    by (simp add: app_env_def app_args pp l(2-) ex_tgid app_vma app_regs app_kills)
  then show ?thesis using l(1) by simp
qed

text \<open>
  C25: The pass and the loader disagree on the section. A binary whose policy sections carry the name
  that the pass gives them has no table for the loader, so that every checked system call the child
  makes from the main binary is refused.
\<close>

theorem pass_built_binary_refused:
  assumes "bpf_kernel_laws K" and "launch K env args s = Monitors l"
    and "parse_args args False ENFORCE_KILL = CliRun opts" and "env_elf env (hd (opt_argv opts)) = ElfOpened e"
    and "\<forall>sc \<in> set (e_scns e). sh_name sc = Some ''.sentinel'' \<longrightarrow>
      sh_name sc = Some (fst (out_section (SentinelPass_run block_addr fn_addr used M)))"
    and "ctx_tgid c = l_pid l" and "regs_ip c = Some rip"
    and "vma_map (kview K (l_state l)) \<lparr>prefixlen = 64, key_addr = bswap64 (rip - 2)\<rparr> =
      Some \<lparr>module_id = MODULE_MAIN, base_addr = base\<rparr>"
  shows "signals (sentinel_check (l_config l) (kview K (l_state l)) c nr st) = signals st @ deny_signals (l_config l)"
proof -
  have "fst (out_section (SentinelPass_run block_addr fn_addr used M)) \<noteq> ''.sentinel''"
    by (simp add: SentinelPass_run_def POLICY_SECTION_def Let_def)
  then have absent: "\<forall>sc \<in> set (e_scns e). sh_name sc \<noteq> Some ''.sentinel''" using assms(5) by auto
  obtain pp where pp: "parse_sentinel_section (env_elf env) (hd (opt_argv opts)) MAX_POLICY_ENTRIES = Some pp"
    "pp_entries pp = []"
    using parse_without_sentinel [of "env_elf env" "hd (opt_argv opts)", OF assms(4) absent, of MAX_POLICY_ENTRIES] by auto
  from launch_monitors [OF assms(2)] pp assms(3) obtain b n where "l_setup l =
      setup_child K (env_elf env) (env_maps env n) (hd (opt_argv opts)) [] (binary_load_base pp) b (l_pid l) s"
      "setup_phase (l_setup l) = Proceed (l_state l)" by fastforce
  from bpf_kernel_laws.setup_child_proceeds [OF assms(1) this(1) [symmetric] this(2)]
  have "main_loaded (l_setup l) = length (pp_entries pp)" by (auto simp: pp)
  note main = launched_main_policy [OF assms(1-3) pp(1) this, of "rip - 2 - base"]
  have "\<not> site_allowed (kview K (l_state l)) c nr"
    using site_allowed_at [OF assms(7,8) main [THEN conjunct1], of nr] main [THEN conjunct2] by (simp add: pp)
  then show ?thesis using sentinel_check_signals [OF launched_scope [OF assms(1,2,6)], of nr st] by simp
qed

theorem pass_built_binary_refused_witness:
  "\<exists>l. launch ref_kernel (app_env (ex_elf\<lparr>e_scns := [ex_text\<lparr>sh_name := Some POLICY_SECTION\<rparr>]\<rparr>)) [''./app''] app_state =
      Monitors l \<and>
    signals (sentinel_check (l_config l) (kview ref_kernel (l_state l)) (ex_ctx 0x551003) 1 ex_state) = [9]"
proof -
  let ?e = "ex_elf\<lparr>e_scns := [ex_text\<lparr>sh_name := Some POLICY_SECTION\<rparr>]\<rparr>"
  have absent: "\<forall>sc \<in> set (e_scns ?e). sh_name sc \<noteq> Some ''.sentinel''" by (simp add: POLICY_SECTION_def)
  obtain pp where pp: "parse_sentinel_section (\<lambda>_. ElfOpened ?e) ''./app'' MAX_POLICY_ENTRIES = Some pp"
      "0 \<le> pp_count pp" "pp_entries pp = []"
    using parse_without_sentinel [of "\<lambda>_. ElfOpened ?e" "''./app''", OF refl absent, of MAX_POLICY_ENTRIES] by auto
  have 1: "parse_sentinel_cfi (\<lambda>_. ElfOpened ?e) ''./app'' MAX_POLICY_ENTRIES = []"
    by (simp add: parse_sentinel_cfi_def POLICY_SECTION_def)
  have 2: "setup_cfi_policy ref_kernel (ElfOpened ?e) offs b = Some" for offs b
    by (rule ext) (simp add: setup_cfi_policy_def ex_text_def SHT_PROGBITS_def SHT_SYMTAB_def)
  from app_launch [OF pp(1,2) 1 2, of 0 "[]"] obtain l where
    l: "launch ref_kernel (app_env ?e) [''./app''] app_state = Monitors l" "l_state l = app_maps []" "l_pid l = 100"
      "l_config l = loader_config app_opts" by (auto simp: pp(3))
  show ?thesis
    using pass_built_binary_refused [OF refk.bpf_kernel_laws_axioms l(1) app_args(1), of ?e _ _ _ _ "ex_ctx 0x551003"
        "0x551003" "0x550000" 1 ex_state] absent l
    by (simp add: app_env_def ex_tgid app_vma app_regs app_kills)
qed

text \<open>
  C11: The number of a system call survives the three encodings: what the pass stores in an entry, what
  the loader decodes from it and stores in the policy map, and what the kernel compares agree. An
  entry with a number admits exactly that number, one without admits every number.
\<close>

theorem number_roundtrip:
  assumes "- 1 \<le> n" and "n < 2 ^ 32"
  shows "nr_permitted (policy_value (decoded_nr
      \<lparr>site_addr = site, func_addr = fn, syscall_nr = word_of_int (EncodedNr n)\<rparr>)) nr \<longleftrightarrow> n = - 1 \<or> uint nr = n"
proof -
  have "decoded_nr \<lparr>site_addr = site, func_addr = fn, syscall_nr = word_of_int (EncodedNr n)\<rparr> = n"
    using assms sint_EncodedNr [of n] by (auto simp: decoded_nr_def EncodedNr_def)
  moreover have "nr = word_of_int n \<longleftrightarrow> uint nr = n" if "0 \<le> n"
    using that assms(2) by (auto simp: unsigned_of_int take_bit_int_eq_self word_uint_eq_iff)
  moreover have "0 \<le> n \<or> n = - 1" using assms(1) by arith
  ultimately show ?thesis by (auto simp: nr_permitted_value)
qed

theorem number_roundtrip_witness:
  "\<not> nr_permitted (policy_value (decoded_nr
      \<lparr>site_addr = 0x401001, func_addr = 0x401000, syscall_nr = word_of_int (EncodedNr 59)\<rparr>)) 1"
  using number_roundtrip [of 59 "0x401001" "0x401000" 1] by simp

text \<open>
  C26: Failure is not closed: when the setup fails after the child was trapped, \<open>main\<close> reaches the
  clean-up and no hook has any effect on a process that was not tracked before, whatever it calls,
  the child included.
\<close>

theorem failed_launch_unrestricted:
  assumes "bpf_kernel_laws K" and "launch K env args s = CleansUp fate s'"
    and "target_pid_map (kview K s) (ctx_tgid c) = None"
  shows "run_hook name (loader_config opts) (kview K s') c st = st"
proof -
  from launch_cleans_up [OF assms(2)] obtain opened maps binary entries b libc_base pid where
    "setup_phase (setup_child K opened maps binary entries b libc_base pid s) \<in> {Cleanup s', Killed s'}"
    by (metis insertCI)
  from bpf_kernel_laws.setup_child_cleanup [OF assms(1) this] assms(3) show ?thesis
    by (simp add: run_hook_untracked loader_config_def)
qed

theorem failed_launch_unrestricted_witness:
  "run_hook ''execve'' (loader_config app_opts) (kview ref_kernel (ref_empty\<lparr>ref_registry := [(7, 9)]\<rparr>)) (ex_ctx 0) ex_state =
     ex_state"
proof -
  let ?s = "ref_empty\<lparr>ref_registry := [(7, 9)]\<rparr>"
  have "launch ref_kernel ex_env [''./app''] ?s = CleansUp ChildStopped ?s"
    by (simp add: launch_def ex_env_def parse_sentinel_section_def release_child_def ex_wait exec_trap
        child_exec_def exec_status_def Let_def setup_child_def populate_modules_def populate_vma_for_module_def register_main_def
        ref_kernel_def ref_empty_def and_then_def)
  from failed_launch_unrestricted [OF refk.bpf_kernel_laws_axioms this] show ?thesis
    by (simp add: ref_kernel_simps ref_empty_def)
qed

end
